(* ===== verification/Go_Prelude.thy ===== *)
theory Go_Prelude
  imports Main "HOL-Library.Word" "HOL-Library.Signed_Division" "HOL-Library.Char_ord"
    "HOL-Library.List_Lexorder"
begin

text \<open>
  The part of the Go language and of its standard library that the modelled packages use:
  64-bit signed integers (\<open>wrap64\<close>, truncating division), the operations of \<open>strings\<close> and
  \<open>strconv\<close>, and views of the slices, ring buffers and maps the components share.

  \<^item> An \<open>int\<close> or \<open>int64\<close> is an \<open>int\<close>; every sum, difference or product that the source
    computes at that width is wrapped by \<open>wrap64\<close>. \<open>i64\<close> says that a value is a value of
    the type. \<open>uint64\<close> and \<open>uint32\<close> are words.
  \<^item> A Go string is its sequence of bytes, a \<open>string\<close>. The case mapping and the white space
    of \<open>strings.ToLower\<close>, \<open>strings.ToUpper\<close>, \<open>strings.TrimSpace\<close> are the ASCII part of the
    Unicode tables: venue names, instruments, event types and subjects are ASCII.
  \<^item> Slices are lists, and a map is a partial function together with, where the source reads
    its length, the list of its keys.
\<close>

named_theorems go_str \<open>normal forms of the string operations\<close>
named_theorems go_arith \<open>integers at their width\<close>

section \<open>Integers\<close>

definition wrap64 :: "int \<Rightarrow> int" where
  "wrap64 x = (x + 2 ^ 63) mod 2 ^ 64 - 2 ^ 63"

definition i64 :: "int \<Rightarrow> bool" where
  "i64 x \<longleftrightarrow> - (2 ^ 63) \<le> x \<and> x < 2 ^ 63"

abbreviation MaxInt64 :: int where
  "MaxInt64 \<equiv> 9223372036854775807"

abbreviation MinInt64 :: int where
  "MinInt64 \<equiv> - 9223372036854775808"

section \<open>Characters and strings\<close>

definition is_space :: "char \<Rightarrow> bool" where
  "is_space c \<longleftrightarrow> c \<in> {CHR 0x09, CHR 0x0A, CHR 0x0B, CHR 0x0C, CHR 0x0D, CHR '' ''}"

definition is_upper :: "char \<Rightarrow> bool" where
  "is_upper c \<longleftrightarrow> 65 \<le> (of_char c :: nat) \<and> (of_char c :: nat) \<le> 90"

definition is_lower :: "char \<Rightarrow> bool" where
  "is_lower c \<longleftrightarrow> 97 \<le> (of_char c :: nat) \<and> (of_char c :: nat) \<le> 122"

definition is_digit :: "char \<Rightarrow> bool" where
  "is_digit c \<longleftrightarrow> 48 \<le> (of_char c :: nat) \<and> (of_char c :: nat) \<le> 57"

definition to_lower :: "char \<Rightarrow> char" where
  "to_lower c = (if is_upper c then char_of ((of_char c :: nat) + 32) else c)"

definition to_upper :: "char \<Rightarrow> char" where
  "to_upper c = (if is_lower c then char_of ((of_char c :: nat) - 32) else c)"

definition TrimSpace :: "string \<Rightarrow> string" where
  "TrimSpace s = rev (dropWhile is_space (rev (dropWhile is_space s)))"

definition ToLower :: "string \<Rightarrow> string" where
  "ToLower s = map to_lower s"

definition ToUpper :: "string \<Rightarrow> string" where
  "ToUpper s = map to_upper s"

definition HasPrefix :: "string \<Rightarrow> string \<Rightarrow> bool" where
  "HasPrefix s p \<longleftrightarrow> take (length p) s = p"

definition HasSuffix :: "string \<Rightarrow> string \<Rightarrow> bool" where
  "HasSuffix s p \<longleftrightarrow> HasPrefix (rev s) (rev p)"

definition TrimPrefix :: "string \<Rightarrow> string \<Rightarrow> string" where
  "TrimPrefix s p = (if HasPrefix s p then drop (length p) s else s)"

fun Contains :: "string \<Rightarrow> string \<Rightarrow> bool" where
  "Contains [] p \<longleftrightarrow> p = []"
| "Contains (x # s) p \<longleftrightarrow> HasPrefix (x # s) p \<or> Contains s p"

definition ContainsAny :: "string \<Rightarrow> string \<Rightarrow> bool" where
  "ContainsAny s cs \<longleftrightarrow> (\<exists>c \<in> set s. c \<in> set cs)"

fun Split :: "char \<Rightarrow> string \<Rightarrow> string list" where
  "Split c [] = [[]]"
| "Split c (x # xs) =
     (if x = c then [] # Split c xs
      else case Split c xs of [] \<Rightarrow> [[x]] | y # ys \<Rightarrow> (x # y) # ys)"

fun Join :: "string list \<Rightarrow> string \<Rightarrow> string" where
  "Join [] sep = []"
| "Join [x] sep = x"
| "Join (x # y # xs) sep = x @ sep @ Join (y # xs) sep"

section \<open>time\<close>

text \<open>
  Times are nanoseconds of the Unix epoch; Go's zero time is the first of January of the year 1. The
  difference of two times saturates at the range of a \<open>time.Duration\<close>.
\<close>

definition zeroTime :: int where
  "zeroTime = - 62135596800000000000"

definition time_sub :: "int \<Rightarrow> int \<Rightarrow> int" where
  "time_sub a b = (let d = a - b in if d > MaxInt64 then MaxInt64 else if d < MinInt64 then MinInt64 else d)"

section \<open>strconv\<close>

definition digit_char :: "nat \<Rightarrow> char" where
  "digit_char d = char_of (if d < 10 then d + 48 else d + 87)"

definition digit_val :: "char \<Rightarrow> nat" where
  "digit_val c = (of_char c :: nat) - 48"

fun format_base :: "nat \<Rightarrow> nat \<Rightarrow> string" where
  "format_base b n =
     (if b < 2 then [] else if n < b then [digit_char n]
      else format_base b (n div b) @ [digit_char (n mod b)])"

declare format_base.simps [simp del]

definition Itoa :: "int \<Rightarrow> string" where
  "Itoa x = (if x < 0 then CHR ''-'' # format_base 10 (nat (- x)) else format_base 10 (nat x))"

definition FormatUint :: "64 word \<Rightarrow> nat \<Rightarrow> string" where
  "FormatUint w b = format_base b (unat w)"

text \<open>The same digits computed on integers: the form evaluation uses, linear in the number of digits.\<close>

function format_int :: "int \<Rightarrow> int \<Rightarrow> string \<Rightarrow> string" where
  "format_int b n acc =
     (if b < 2 \<or> n < b then digit_char (nat n) # acc
      else format_int b (n div b) (digit_char (nat (n mod b)) # acc))"
  by pat_completeness auto
termination
proof (relation "measure (\<lambda>(b, n, acc). nat n)", goal_cases)
  case (2 b n acc)
  then have "n div b < n" by (intro int_div_less_self) auto
  moreover have "0 \<le> n div b" using 2 by (simp add: pos_imp_zdiv_nonneg_iff)
  ultimately show ?case by simp
qed simp

declare format_int.simps [simp del]

definition parse_digits :: "string \<Rightarrow> nat" where
  "parse_digits s = foldl (\<lambda>n c. 10 * n + digit_val c) 0 s"

text \<open>
  \<open>strconv.Atoi\<close> and \<open>strconv.ParseInt(s, 10, 64)\<close>: an optional sign, then at least one
  decimal digit and nothing else, and a value in the range of the type; \<open>None\<close> is a
  non-nil error.
\<close>

definition ParseInt :: "string \<Rightarrow> int option" where
  "ParseInt s =
     (let neg = (s \<noteq> [] \<and> hd s = CHR ''-'');
          body = (if s \<noteq> [] \<and> (hd s = CHR ''-'' \<or> hd s = CHR ''+'') then tl s else s)
      in if body = [] \<or> \<not> list_all is_digit body then None
         else let v = (if neg then - int (parse_digits body) else int (parse_digits body))
              in if - (2 ^ 63) \<le> v \<and> v < 2 ^ 63 then Some v else None)"

section \<open>Views of ring buffers\<close>

text \<open>
  The live elements of a ring buffer \<open>buf\<close> of capacity \<open>c\<close> with its first element at index
  \<open>h\<close> and \<open>n\<close> live elements, in logical order.
\<close>

definition ring_view :: "'a list \<Rightarrow> nat \<Rightarrow> nat \<Rightarrow> nat \<Rightarrow> 'a list" where
  "ring_view buf h n c = map (\<lambda>i. buf ! ((h + i) mod c)) [0..<n]"

text \<open>
  The loop that closes the gap at logical index \<open>i\<close>: each later element moves one slot
  towards the head, \<open>for j := i; j < n-1; j++ { buf[(h+j)%c] = buf[(h+j+1)%c] }\<close>.
\<close>

definition ring_shift :: "'a list \<Rightarrow> nat \<Rightarrow> nat \<Rightarrow> nat \<Rightarrow> nat \<Rightarrow> 'a list" where
  "ring_shift buf h c i n =
     foldl (\<lambda>b j. b[(h + j) mod c := b ! ((h + j + 1) mod c)]) buf [i..<n - 1]"

section \<open>Lemmas: integers\<close>

lemma wrap64_id [simp, go_arith]: "i64 x \<Longrightarrow> wrap64 x = x"
  by (simp add: wrap64_def i64_def)

lemma i64_wrap64 [simp]: "i64 (wrap64 x)"
proof -
  have "0 \<le> (x + 2 ^ 63) mod 2 ^ 64" and "(x + 2 ^ 63) mod 2 ^ 64 < (2 :: int) ^ 64"
    by simp_all
  then show ?thesis by (simp add: wrap64_def i64_def)
qed

lemma i64_bounds: "i64 x \<longleftrightarrow> MinInt64 \<le> x \<and> x \<le> MaxInt64"
  by (auto simp: i64_def)

lemma sdiv_pos: "0 \<le> a \<Longrightarrow> 0 < b \<Longrightarrow> a sdiv b = a div (b :: int)"
  by (cases "a = 0") (auto simp: signed_divide_int_def)

section \<open>Lemmas: characters and strings\<close>

lemma of_char_to_lower:
  "(of_char (to_lower c) :: nat) = (if is_upper c then of_char c + 32 else of_char c)"
  by (auto simp: to_lower_def is_upper_def)

lemma of_char_to_upper:
  "(of_char (to_upper c) :: nat) = (if is_lower c then of_char c - 32 else of_char c)"
proof (cases "is_lower c")
  case True
  then have "(of_char c :: nat) - 32 < 256" unfolding is_lower_def by linarith
  with True show ?thesis by (simp add: to_upper_def)
qed (simp add: to_upper_def)

lemma to_lower_idem [simp]: "to_lower (to_lower c) = to_lower c"
  using of_char_to_lower [of c] by (auto simp: to_lower_def is_upper_def)

lemma to_upper_idem [simp]: "to_upper (to_upper c) = to_upper c"
  using of_char_to_upper [of c] by (auto simp: to_upper_def is_lower_def)

lemma to_upper_not_lower: "\<not> is_lower (to_upper c)"
  using of_char_to_upper [of c] by (auto simp: is_lower_def)

lemma to_lower_not_upper: "\<not> is_upper (to_lower c)"
  using of_char_to_lower [of c] by (auto simp: is_upper_def)

lemma to_lower_to_upper [simp]: "to_lower (to_upper c) = to_lower c"
  using of_char_to_upper [of c] by (auto simp: to_lower_def to_upper_def is_lower_def is_upper_def)

lemma to_upper_to_lower [simp]: "to_upper (to_lower c) = to_upper c"
  using of_char_to_lower [of c] by (auto simp: to_lower_def to_upper_def is_lower_def is_upper_def)

lemma is_space_code:
  "is_space c \<longleftrightarrow> (of_char c :: nat) \<in> {9, 10, 11, 12, 13, 32}"
proof -
  have inj: "c = d \<longleftrightarrow> (of_char c :: nat) = of_char d" for d
    by (metis char_of_char)
  show ?thesis unfolding is_space_def insert_iff empty_iff inj by simp
qed

lemma is_space_to_lower [simp]: "is_space (to_lower c) = is_space c"
  by (auto simp: is_space_code of_char_to_lower is_upper_def)

lemma is_space_to_upper [simp]: "is_space (to_upper c) = is_space c"
  by (auto simp: is_space_code of_char_to_upper is_lower_def)

lemma ToLower_idem [simp]: "ToLower (ToLower s) = ToLower s"
  by (simp add: ToLower_def)

lemma ToUpper_idem [simp]: "ToUpper (ToUpper s) = ToUpper s"
  by (simp add: ToUpper_def)

lemma ToLower_ToUpper [simp]: "ToLower (ToUpper s) = ToLower s"
  by (simp add: ToLower_def ToUpper_def)

lemma ToUpper_ToLower [simp]: "ToUpper (ToLower s) = ToUpper s"
  by (simp add: ToLower_def ToUpper_def)

lemma TrimSpace_map:
  assumes "\<And>c. is_space (f c) = is_space c"
  shows "TrimSpace (map f s) = map f (TrimSpace s)"
proof -
  have "dropWhile is_space (map f t) = map f (dropWhile is_space t)" for t
    by (simp add: dropWhile_map o_def assms)
  then show ?thesis by (simp add: TrimSpace_def rev_map)
qed

lemma TrimSpace_ToLower [go_str]: "TrimSpace (ToLower s) = ToLower (TrimSpace s)"
  by (simp add: ToLower_def TrimSpace_map)

lemma TrimSpace_ToUpper [go_str]: "TrimSpace (ToUpper s) = ToUpper (TrimSpace s)"
  by (simp add: ToUpper_def TrimSpace_map)

lemma ToLower_Nil_iff [simp]: "ToLower s = [] \<longleftrightarrow> s = []"
  by (simp add: ToLower_def)

lemma ToUpper_Nil_iff [simp]: "ToUpper s = [] \<longleftrightarrow> s = []"
  by (simp add: ToUpper_def)

lemma ToLower_append [simp]: "ToLower (s @ t) = ToLower s @ ToLower t"
  by (simp add: ToLower_def)

lemma ToUpper_append [simp]: "ToUpper (s @ t) = ToUpper s @ ToUpper t"
  by (simp add: ToUpper_def)

lemma dropWhile_idem_rev:
  "dropWhile P (rev (dropWhile P (rev (dropWhile P s)))) = rev (dropWhile P (rev (dropWhile P s)))"
proof (cases "dropWhile P s")
  case Nil
  then show ?thesis by (simp only: rev.simps dropWhile.simps)
next
  case (Cons x xs)
  then have x: "\<not> P x" by (metis hd_dropWhile list.distinct(1) list.sel(1))
  have "dropWhile P (rev xs @ [x]) = dropWhile P (rev xs) @ [x]"
    using x by (induction xs rule: rev_induct) auto
  with Cons x show ?thesis by simp
qed

lemma TrimSpace_idem [simp]: "TrimSpace (TrimSpace s) = TrimSpace s"
  by (simp add: TrimSpace_def dropWhile_idem_rev)

lemma TrimSpace_Nil [simp]: "TrimSpace [] = []"
  by (simp add: TrimSpace_def)

lemma TrimSpace_Nil_iff: "TrimSpace s = [] \<longleftrightarrow> list_all is_space s"
proof
  assume "TrimSpace s = []"
  then have "list_all is_space (dropWhile is_space s)"
    by (simp add: TrimSpace_def list_all_iff)
  then have "dropWhile is_space s = []"
    by (cases "dropWhile is_space s") (auto dest: dropWhile_eq_Cons_conv [THEN iffD1])
  then show "list_all is_space s" by (simp add: list_all_iff)
next
  assume "list_all is_space s"
  then have "dropWhile is_space s = []" by (simp add: list_all_iff)
  then show "TrimSpace s = []" by (simp only: TrimSpace_def rev.simps dropWhile.simps)
qed

lemma TrimSpace_no_space: "list_all (\<lambda>c. \<not> is_space c) s \<Longrightarrow> TrimSpace s = s"
proof -
  assume a: "list_all (\<lambda>c. \<not> is_space c) s"
  have d: "list_all (\<lambda>c. \<not> is_space c) t \<Longrightarrow> dropWhile is_space t = t" for t
    by (cases t) auto
  from a have "list_all (\<lambda>c. \<not> is_space c) (rev s)" by (simp add: list_all_iff)
  with a d show ?thesis by (simp add: TrimSpace_def)
qed

lemma set_TrimSpace: "set (TrimSpace s) \<subseteq> set s"
  by (auto simp: TrimSpace_def dest!: set_dropWhileD)

lemma Split_not_Nil [simp]: "Split c s \<noteq> []"
  by (cases s) (auto split: list.splits)

lemma Join_Cons: "ts \<noteq> [] \<Longrightarrow> Join (t # ts) sep = t @ sep @ Join ts sep"
  by (cases ts) auto

lemma Join_Split [simp]: "Join (Split c s) [c] = s"
proof (induction s)
  case (Cons x xs)
  obtain y ys where "Split c xs = y # ys" by (cases "Split c xs") auto
  with Cons show ?case by (cases ys) auto
qed simp

lemma Split_no_sep: "c \<notin> set t \<Longrightarrow> Split c t = [t]"
  by (induction t) auto

lemma Split_append: "c \<notin> set t \<Longrightarrow> Split c (t @ c # s) = t # Split c s"
  by (induction t) auto

lemma Split_append_sep: "Split c (s @ c # t) = Split c s @ Split c t"
  by (induction s) (auto split: list.splits)

lemma Split_Join [simp]:
  "ts \<noteq> [] \<Longrightarrow> \<forall>t \<in> set ts. c \<notin> set t \<Longrightarrow> Split c (Join ts [c]) = ts"
proof (induction ts)
  case (Cons t ts)
  then show ?case
    by (cases "ts = []") (auto simp: Join_Cons Split_no_sep Split_append)
qed simp

lemma Join_inject:
  assumes "Join ss [c] = Join ts [c]" "ss \<noteq> []" "ts \<noteq> []"
    and "\<forall>t \<in> set ss. c \<notin> set t" "\<forall>t \<in> set ts. c \<notin> set t"
  shows "ss = ts"
  using assms Split_Join by metis

lemma Split_tokens: "t \<in> set (Split c s) \<Longrightarrow> c \<notin> set t"
  by (induction s arbitrary: t) (auto split: list.splits if_splits)

lemma Split_chars: "t \<in> set (Split c s) \<Longrightarrow> set t \<subseteq> set s"
proof (induction s arbitrary: t)
  case (Cons x xs)
  then show ?case by (fastforce split: list.splits if_splits)
qed simp

lemma HasPrefix_append [simp]: "HasPrefix (p @ s) p"
  by (simp add: HasPrefix_def)

lemma TrimPrefix_append [simp]: "TrimPrefix (p @ s) p = s"
  by (simp add: TrimPrefix_def)

lemma Contains_append: "Contains (p @ s) p"
proof (cases "p @ s")
  case (Cons a t)
  with HasPrefix_append [of p s] show ?thesis by simp
qed simp

lemma Contains_prepend: "Contains s p \<Longrightarrow> Contains (t @ s) p"
  by (induction t) auto

section \<open>Lemmas: strconv\<close>

lemma digit_char_inject:
  assumes "d < 36" "e < 36" "digit_char d = digit_char e"
  shows "d = e"
proof -
  let ?f = "\<lambda>d :: nat. if d < 10 then d + 48 else d + 87"
  have "of_char (digit_char d) = ?f d" "of_char (digit_char e) = ?f e"
    using assms(1,2) by (auto simp: digit_char_def)
  with assms(3) have "?f d = ?f e" by metis
  then show ?thesis by (auto split: if_splits)
qed

lemma is_digit_digit_char [simp]: "d < 10 \<Longrightarrow> is_digit (digit_char d)"
  by (simp add: is_digit_def digit_char_def)

lemma digit_val_digit_char [simp]: "d < 10 \<Longrightarrow> digit_val (digit_char d) = d"
  by (simp add: digit_val_def digit_char_def)

lemma format_base_not_Nil [simp]: "2 \<le> b \<Longrightarrow> format_base b n \<noteq> []"
  by (subst format_base.simps) auto

lemma format_int_base: "2 \<le> b \<Longrightarrow> format_int (int b) (int n) acc = format_base b n @ acc"
proof (induction n arbitrary: acc rule: less_induct)
  case (less n)
  show ?case
  proof (cases "n < b")
    case True then show ?thesis using less.prems by (simp add: format_int.simps format_base.simps)
  next
    case False
    then have "n div b < n" using less.prems by simp
    then show ?thesis using less False
      by (simp add: format_int.simps [of "int b" "int n"] format_base.simps [of b n] zdiv_int [symmetric] zmod_int [symmetric])
  qed
qed

lemma FormatUint_code [code]:
  "FormatUint w b = (if b < 2 then [] else format_int (int b) (uint w) [])"
  using format_int_base [of b "unat w" "[]"] by (simp add: FormatUint_def format_base.simps)

lemma Itoa_code [code]:
  "Itoa x = (if x < 0 then CHR ''-'' # format_int 10 (- x) [] else format_int 10 x [])"
  using format_int_base [of 10 "nat x" "[]"] format_int_base [of 10 "nat (-x)" "[]"] by (auto simp: Itoa_def)

lemma format_base_inject:
  assumes "2 \<le> b" "b \<le> 36"
  shows "format_base b m = format_base b n \<Longrightarrow> m = n"
proof (induction m arbitrary: n rule: less_induct)
  case (less m)
  show ?case
  proof (cases "m < b \<or> n < b")
    case True
    then have "m < b \<and> n < b \<and> digit_char m = digit_char n"
      using less.prems assms format_base_not_Nil [OF assms(1)]
      by (auto simp: format_base.simps [of b m] format_base.simps [of b n] Cons_eq_append_conv
          append_eq_Cons_conv split: if_splits)
    then show ?thesis using assms(2) by (auto intro: digit_char_inject)
  next
    case False
    with less.prems assms
    have eq: "format_base b (m div b) = format_base b (n div b)"
      and last: "digit_char (m mod b) = digit_char (n mod b)"
      by (auto simp: format_base.simps [of b m] format_base.simps [of b n])
    have "m mod b < 36" "n mod b < 36"
      using assms by (auto intro: less_le_trans [OF mod_less_divisor])
    with last have "m mod b = n mod b" by (blast intro: digit_char_inject)
    moreover from False assms have "m div b < m" by (auto intro: div_less_dividend)
    with eq have "m div b = n div b" by (rule less.IH [rotated])
    ultimately show ?thesis by (metis mult_div_mod_eq)
  qed
qed

lemma parse_digits_snoc [simp]: "parse_digits (s @ [c]) = 10 * parse_digits s + digit_val c"
  by (simp add: parse_digits_def)

lemma parse_format [simp]: "parse_digits (format_base 10 n) = n"
proof (induction n rule: less_induct)
  case (less n)
  show ?case
  proof (cases "n < 10")
    case True
    then show ?thesis by (simp add: format_base.simps [of 10 n] parse_digits_def)
  next
    case False
    then have "parse_digits (format_base 10 (n div 10)) = n div 10" by (intro less.IH) simp
    with False show ?thesis by (simp add: format_base.simps [of 10 n])
  qed
qed

lemma format_digits: "list_all is_digit (format_base 10 n)"
proof (induction n rule: less_induct)
  case (less n)
  then show ?case by (cases "n < 10") (simp_all add: format_base.simps [of 10 n])
qed

lemma is_digit_not_sign: "is_digit c \<Longrightarrow> c \<noteq> CHR ''-'' \<and> c \<noteq> CHR ''+''"
  by (auto simp: is_digit_def)

lemma format_hd_not_sign:
  "hd (format_base 10 n) \<noteq> CHR ''-''" "hd (format_base 10 n) \<noteq> CHR ''+''"
  using format_digits [of n] by (cases "format_base 10 n", auto dest: is_digit_not_sign)+

text \<open>Decimal output reads back as the number it was printed from.\<close>

lemma ParseInt_Itoa [simp]: "i64 x \<Longrightarrow> ParseInt (Itoa x) = Some x"
  by (simp add: ParseInt_def Itoa_def format_hd_not_sign format_digits i64_def)

lemma format_hd_not_zero: "0 < n \<Longrightarrow> hd (format_base 10 n) \<noteq> CHR ''0''"
proof (induction n rule: less_induct)
  case (less n)
  show ?case
  proof (cases "n < 10")
    case True
    have "digit_char 0 = CHR ''0''" by code_simp
    with True less.prems show ?thesis using digit_char_inject [of n 0]
      by (auto simp: format_base.simps [of 10 n])
  next
    case False
    then show ?thesis using less.IH [of "n div 10"] by (simp add: format_base.simps [of 10 n])
  qed
qed

lemma ParseInt_format: "n < 2 ^ 63 \<Longrightarrow> ParseInt (format_base 10 n) = Some (int n)"
  using ParseInt_Itoa [of "int n"] by (simp add: Itoa_def i64_def)

lemma ParseInt_i64: "ParseInt s = Some v \<Longrightarrow> i64 v"
  by (auto simp: ParseInt_def i64_def Let_def split: if_splits)

lemma Itoa_inject: "i64 x \<Longrightarrow> i64 y \<Longrightarrow> Itoa x = Itoa y \<longleftrightarrow> x = y"
  by (metis ParseInt_Itoa option.inject)

section \<open>Lemmas: ring buffers\<close>

lemma length_ring_view [simp]: "length (ring_view buf h n c) = n"
  by (simp add: ring_view_def)

lemma nth_ring_view [simp]: "i < n \<Longrightarrow> ring_view buf h n c ! i = buf ! ((h + i) mod c)"
  by (simp add: ring_view_def)

lemma ring_slot_inject:
  fixes h i j c :: nat
  assumes "i < c" "j < c" "(h + i) mod c = (h + j) mod c"
  shows "i = j"
proof -
  have "i = j" if "i \<le> j" "j < c" "(h + j) mod c = (h + i) mod c" for i j :: nat
  proof -
    from that have "c dvd j - i" by (simp add: mod_eq_dvd_iff_nat)
    with that show ?thesis by (auto dest: dvd_imp_le)
  qed
  from this [of i j] this [of j i] assms show ?thesis by fastforce
qed

lemma ring_view_push:
  assumes "length buf = c" "n < c"
  shows "ring_view (buf[(h + n) mod c := x]) h (Suc n) c = ring_view buf h n c @ [x]"
proof (rule nth_equalityI)
  fix i assume "i < length (ring_view (buf[(h + n) mod c := x]) h (Suc n) c)"
  then have i: "i < Suc n" by simp
  have slot: "(h + n) mod c < length buf" using assms by simp
  show "ring_view (buf[(h + n) mod c := x]) h (Suc n) c ! i = (ring_view buf h n c @ [x]) ! i"
  proof (cases "i = n")
    case False
    with i assms have "(h + i) mod c \<noteq> (h + n) mod c"
      using ring_slot_inject [of i c n h] by auto
    with False i show ?thesis by (simp add: nth_append)
  qed (use slot in \<open>simp add: nth_append\<close>)
qed simp

lemma ring_view_drop:
  assumes "n \<le> c" "0 < n" "h < c"
  shows "ring_view (buf[h := z]) ((h + 1) mod c) (n - 1) c = tl (ring_view buf h n c)"
proof (rule nth_equalityI)
  fix i assume "i < length (ring_view (buf[h := z]) ((h + 1) mod c) (n - 1) c)"
  then have i: "Suc i < n" by simp
  with assms have "(h + Suc i) mod c \<noteq> (h + 0) mod c"
    using ring_slot_inject [of "Suc i" c 0 h] by auto
  with assms have "h \<noteq> (h + Suc i) mod c" by auto
  with i show "ring_view (buf[h := z]) ((h + 1) mod c) (n - 1) c ! i = tl (ring_view buf h n c) ! i"
    by (simp add: nth_tl mod_simps)
qed simp

lemma ring_view_clear_tail:
  assumes "n < c"
  shows "ring_view (buf[(h + n) mod c := z]) h n c = ring_view buf h n c"
proof (rule nth_equalityI)
  fix i assume "i < length (ring_view (buf[(h + n) mod c := z]) h n c)"
  then have i: "i < n" by simp
  with assms have "(h + i) mod c \<noteq> (h + n) mod c"
    using ring_slot_inject [of i c n h] by auto
  with i show "ring_view (buf[(h + n) mod c := z]) h n c ! i = ring_view buf h n c ! i"
    by simp
qed simp

lemma length_ring_shift [simp]: "length (ring_shift buf h c i n) = length buf"
proof -
  have "length (foldl (\<lambda>b j. b[f j := g b j]) buf js) = length buf" for f g js
    by (induction js arbitrary: buf) simp_all
  then show ?thesis by (simp add: ring_shift_def)
qed

text \<open>
  After the gap at \<open>i\<close> has been closed up to \<open>m\<close>, slot \<open>j\<close> of the gap's range holds what slot
  \<open>j + 1\<close> held, and every other slot is as before.
\<close>

lemma ring_shift_slots:
  assumes "length buf = c" "m < c" "i \<le> m" "k < c"
  shows "foldl (\<lambda>b j. b[(h + j) mod c := b ! ((h + j + 1) mod c)]) buf [i..<m] ! ((h + k) mod c) =
    (if i \<le> k \<and> k < m then buf ! ((h + k + 1) mod c) else buf ! ((h + k) mod c))"
  using assms(2-4)
proof (induction m arbitrary: k)
  case (Suc m)
  let ?F = "\<lambda>m. foldl (\<lambda>b j. b[(h + j) mod c := b ! ((h + j + 1) mod c)]) buf [i..<m]"
  have len: "length (?F m') = c" for m'
    using length_ring_shift [of buf h c i "Suc m'"] assms(1) by (simp add: ring_shift_def)
  show ?case
  proof (cases "i \<le> m")
    case True
    then have step: "?F (Suc m) = (?F m)[(h + m) mod c := ?F m ! ((h + m + 1) mod c)]" by simp
    have next_slot: "?F m ! ((h + m + 1) mod c) = buf ! ((h + m + 1) mod c)"
      using Suc.IH [of "Suc m"] Suc.prems True by simp
    show ?thesis
    proof (cases "k = m")
      case True
      then show ?thesis
        using step next_slot len [of m] Suc.prems \<open>i \<le> m\<close> by simp
    next
      case False
      then have "(h + k) mod c \<noteq> (h + m) mod c"
        using ring_slot_inject [of k c m h] Suc.prems by auto
      then have "?F (Suc m) ! ((h + k) mod c) = ?F m ! ((h + k) mod c)"
        using step by simp
      with Suc.IH [of k] Suc.prems True False show ?thesis by auto
    qed
  next
    case False
    with Suc.prems show ?thesis by auto
  qed
qed auto

lemma ring_view_shift:
  assumes "length buf = c" "n \<le> c" "i < n"
  shows "ring_view (ring_shift buf h c i n) h (n - 1) c =
    take i (ring_view buf h n c) @ drop (Suc i) (ring_view buf h n c)"
proof (rule nth_equalityI)
  fix k assume "k < length (ring_view (ring_shift buf h c i n) h (n - 1) c)"
  then have k: "k < n - 1" by simp
  then have "ring_view (ring_shift buf h c i n) h (n - 1) c ! k =
      (if i \<le> k then buf ! ((h + k + 1) mod c) else buf ! ((h + k) mod c))"
    using ring_shift_slots [of buf c "n - 1" i k h] assms by (simp add: ring_shift_def)
  with k assms show "ring_view (ring_shift buf h c i n) h (n - 1) c ! k =
      (take i (ring_view buf h n c) @ drop (Suc i) (ring_view buf h n c)) ! k"
    by (auto simp: nth_append min_def)
qed (use assms in auto)

end
