(* ===== verification/Go_Float.thy ===== *)
theory Go_Float
  imports Complex_Main Go_Prelude "HOL-Library.Log_Nat"
begin

text \<open>
  Go's \<open>float64\<close> (IEEE 754 binary64, round to nearest, ties to even), as far as the modelled
  code computes with it. A finite value is its sign and its magnitude, a rational; \<open>wf_f64\<close>
  says that the magnitude is one that binary64 can represent. Every arithmetic operation
  computes the exact rational result and rounds it once. NaN compares false with everything,
  and the two zeros are equal.

  Two conversions are those of the amd64 target: \<open>int64(x)\<close> truncates, and gives the least
  \<open>int64\<close> where the truncated value does not fit (the Go specification leaves that case to the
  implementation).
\<close>

section \<open>Rounding\<close>

definition pow2 :: "int \<Rightarrow> rat" where
  "pow2 e = (if 0 \<le> e then 2 ^ nat e else 1 / 2 ^ nat (- e))"

text \<open>\<open>flog2 q\<close> is the integer part of the binary logarithm of a positive rational.\<close>

definition flog2 :: "rat \<Rightarrow> int" where
  "flog2 q = (let nd = quotient_of q; k = bitlen (fst nd) - bitlen (snd nd)
              in if pow2 k \<le> q then k else k - 1)"

definition rne :: "rat \<Rightarrow> int" where
  "rne q = (let f = \<lfloor>q\<rfloor>; r = q - of_int f
            in if r < 1 / 2 then f else if 1 / 2 < r then f + 1
               else if even f then f else f + 1)"

text \<open>The exponent of the last place: 53 significant bits, and never below \<open>2 ^ -1074\<close>.\<close>

definition ulp_exp :: "rat \<Rightarrow> int" where
  "ulp_exp q = max (flog2 q - 52) (- 1074)"

definition round_mag :: "rat \<Rightarrow> rat" where
  "round_mag q = (if q \<le> 0 then 0 else of_int (rne (q / pow2 (ulp_exp q))) * pow2 (ulp_exp q))"

section \<open>Values and operations\<close>

datatype f64 = FNaN | FInf bool | FFin bool rat

definition wf_f64 :: "f64 \<Rightarrow> bool" where
  "wf_f64 x = (case x of FFin s m \<Rightarrow> 0 \<le> m \<and> round_mag m = m \<and> m < pow2 1024 | _ \<Rightarrow> True)"

definition f64_round :: "bool \<Rightarrow> rat \<Rightarrow> f64" where
  "f64_round s m = (if pow2 1024 \<le> round_mag m then FInf s else FFin s (round_mag m))"

definition f64_of_rat :: "rat \<Rightarrow> f64" where
  "f64_of_rat q = f64_round (q < 0) \<bar>q\<bar>"

definition f64_of_int :: "int \<Rightarrow> f64" where
  "f64_of_int n = f64_of_rat (of_int n)"

definition fval :: "bool \<Rightarrow> rat \<Rightarrow> rat" where
  "fval s m = (if s then - m else m)"

fun f64_lt :: "f64 \<Rightarrow> f64 \<Rightarrow> bool" where
  "f64_lt FNaN y = False"
| "f64_lt x FNaN = False"
| "f64_lt (FInf s) (FInf t) = (s \<and> \<not> t)"
| "f64_lt (FInf s) (FFin _ _) = s"
| "f64_lt (FFin _ _) (FInf t) = (\<not> t)"
| "f64_lt (FFin s m) (FFin t n) = (fval s m < fval t n)"

fun f64_eq :: "f64 \<Rightarrow> f64 \<Rightarrow> bool" where
  "f64_eq (FInf s) (FInf t) = (s = t)"
| "f64_eq (FFin s m) (FFin t n) = (fval s m = fval t n)"
| "f64_eq _ _ = False"

definition f64_le :: "f64 \<Rightarrow> f64 \<Rightarrow> bool" where
  "f64_le x y \<longleftrightarrow> f64_lt x y \<or> f64_eq x y"

abbreviation f64_gt :: "f64 \<Rightarrow> f64 \<Rightarrow> bool" where
  "f64_gt x y \<equiv> f64_lt y x"

abbreviation f64_ge :: "f64 \<Rightarrow> f64 \<Rightarrow> bool" where
  "f64_ge x y \<equiv> f64_le y x"

fun IsNaN :: "f64 \<Rightarrow> bool" where
  "IsNaN FNaN = True"
| "IsNaN _ = False"

fun IsInf :: "f64 \<Rightarrow> bool" where
  "IsInf (FInf _) = True"
| "IsInf _ = False"

fun f64_neg :: "f64 \<Rightarrow> f64" where
  "f64_neg FNaN = FNaN"
| "f64_neg (FInf s) = FInf (\<not> s)"
| "f64_neg (FFin s m) = FFin (\<not> s) m"

fun f64_add :: "f64 \<Rightarrow> f64 \<Rightarrow> f64" where
  "f64_add FNaN y = FNaN"
| "f64_add x FNaN = FNaN"
| "f64_add (FInf s) (FInf t) = (if s = t then FInf s else FNaN)"
| "f64_add (FInf s) (FFin _ _) = FInf s"
| "f64_add (FFin _ _) (FInf t) = FInf t"
| "f64_add (FFin s m) (FFin t n) =
     (let r = fval s m + fval t n
      in if r = 0 then FFin (s \<and> t) 0 else f64_round (r < 0) \<bar>r\<bar>)"

definition f64_sub :: "f64 \<Rightarrow> f64 \<Rightarrow> f64" where
  "f64_sub x y = f64_add x (f64_neg y)"

fun f64_mul :: "f64 \<Rightarrow> f64 \<Rightarrow> f64" where
  "f64_mul FNaN y = FNaN"
| "f64_mul x FNaN = FNaN"
| "f64_mul (FInf s) (FInf t) = FInf (s \<noteq> t)"
| "f64_mul (FInf s) (FFin t n) = (if n = 0 then FNaN else FInf (s \<noteq> t))"
| "f64_mul (FFin s m) (FInf t) = (if m = 0 then FNaN else FInf (s \<noteq> t))"
| "f64_mul (FFin s m) (FFin t n) = f64_round (s \<noteq> t) (m * n)"

fun f64_div :: "f64 \<Rightarrow> f64 \<Rightarrow> f64" where
  "f64_div FNaN y = FNaN"
| "f64_div x FNaN = FNaN"
| "f64_div (FInf s) (FInf t) = FNaN"
| "f64_div (FInf s) (FFin t n) = FInf (s \<noteq> t)"
| "f64_div (FFin s m) (FInf t) = FFin (s \<noteq> t) 0"
| "f64_div (FFin s m) (FFin t n) =
     (if n = 0 then (if m = 0 then FNaN else FInf (s \<noteq> t)) else f64_round (s \<noteq> t) (m / n))"

text \<open>\<open>math.RoundToEven\<close> and the conversion \<open>int64(x)\<close>.\<close>

fun RoundToEven :: "f64 \<Rightarrow> f64" where
  "RoundToEven (FFin s m) = FFin s (of_int (rne m))"
| "RoundToEven x = x"

fun f64_to_int64 :: "f64 \<Rightarrow> int" where
  "f64_to_int64 (FFin s m) =
     (let t = (if s then - \<lfloor>m\<rfloor> else \<lfloor>m\<rfloor>) in if i64 t then t else MinInt64)"
| "f64_to_int64 _ = MinInt64"

text \<open>
  \<open>math.Float64bits\<close>: the sign bit, eleven bits of biased exponent and 52 bits of fraction; NaN is
  the pattern of \<open>math.NaN\<close>.
\<close>

fun Float64bits :: "f64 \<Rightarrow> 64 word" where
  "Float64bits FNaN = 0x7FF8000000000001"
| "Float64bits (FInf s) = (if s then 0xFFF0000000000000 else 0x7FF0000000000000)"
| "Float64bits (FFin s m) =
     (if s then 0x8000000000000000 else 0) +
     (if m = 0 then 0
      else if flog2 m < - 1022 then word_of_int \<lfloor>m / pow2 (- 1074)\<rfloor>
      else word_of_int ((flog2 m + 1023) * 2 ^ 52 + (\<lfloor>m / pow2 (flog2 m - 52)\<rfloor> - 2 ^ 52)))"

section \<open>Lemmas: powers and logarithms\<close>

lemma pow2_pos [simp]: "0 < pow2 e"
  by (simp add: pow2_def)

lemma pow2_nonneg [simp]: "0 \<le> pow2 e"
  by (simp add: less_imp_le)

lemma pow2_nonzero [simp]: "pow2 e \<noteq> 0"
  by (metis less_irrefl pow2_pos)

lemma pow2_powi: "pow2 e = 2 powi e"
  unfolding pow2_def power_int_def by (simp add: power_one_over inverse_eq_divide)

lemma pow2_add: "pow2 (a + b) = pow2 a * pow2 b"
  by (simp add: pow2_powi power_int_add)

lemma pow2_diff: "pow2 (a - b) = pow2 a / pow2 b"
  by (simp add: pow2_powi power_int_diff)

lemma pow2_mono: "a \<le> b \<Longrightarrow> pow2 a \<le> pow2 b"
  by (simp add: pow2_powi power_int_increasing)

lemma pow2_less_iff [simp]: "pow2 a < pow2 b \<longleftrightarrow> a < b"
proof (cases "a < b")
  case True
  then show ?thesis by (simp add: pow2_powi power_int_strict_increasing)
next
  case False
  then have "pow2 b \<le> pow2 a" by (simp add: pow2_mono)
  with False show ?thesis by simp
qed

lemma pow2_nat: "pow2 (int n) = 2 ^ n"
  by (simp add: pow2_def)

lemma pow2_int_cast: "0 \<le> e \<Longrightarrow> pow2 e = of_int (2 ^ nat e)"
  by (simp add: pow2_def)

lemma flog2_unique:
  assumes "pow2 a \<le> q" "q < pow2 (a + 1)" "pow2 b \<le> q" "q < pow2 (b + 1)"
  shows "a = b"
proof -
  have "pow2 a < pow2 (b + 1)" "pow2 b < pow2 (a + 1)" using assms by linarith+
  then show ?thesis by simp
qed

lemma bitlen_rat_bounds:
  assumes "0 < (n :: int)"
  shows "pow2 (bitlen n - 1) \<le> of_int n" "of_int n < pow2 (bitlen n)"
proof -
  from assms have b: "0 < bitlen n" using bitlen_bounds [OF assms] by (cases "bitlen n \<le> 0") auto
  from bitlen_bounds [OF assms]
  have "2 ^ nat (bitlen n - 1) \<le> n" "n < 2 ^ nat (bitlen n)" by auto
  then have "(of_int (2 ^ nat (bitlen n - 1)) :: rat) \<le> of_int n"
    "(of_int n :: rat) < of_int (2 ^ nat (bitlen n))"
    by (simp_all only: of_int_le_iff of_int_less_iff)
  with b show "pow2 (bitlen n - 1) \<le> of_int n" "of_int n < pow2 (bitlen n)"
    by (simp_all add: pow2_def)
qed

lemma flog2_bounds:
  assumes "0 < q"
  shows "pow2 (flog2 q) \<le> q" "q < pow2 (flog2 q + 1)"
proof -
  obtain n d where nd: "quotient_of q = (n, d)" by (cases "quotient_of q")
  have d: "0 < d" and q: "q = of_int n / of_int d"
    using quotient_of_denom_pos [OF nd] quotient_of_div [OF nd] by simp_all
  with assms have n: "0 < n" by (simp add: zero_less_divide_iff)
  let ?k = "bitlen n - bitlen d"
  have up: "q < pow2 (?k + 1)"
  proof -
    have "of_int n * pow2 (bitlen d - 1) < pow2 (bitlen n) * of_int d"
      using bitlen_rat_bounds(2) [OF n] bitlen_rat_bounds(1) [OF d] d n
      by (intro mult_less_le_imp_less) auto
    then have "of_int n / of_int d < pow2 (bitlen n) / pow2 (bitlen d - 1)"
      using d by (simp add: field_simps)
    then show ?thesis by (simp add: q pow2_diff [symmetric] algebra_simps)
  qed
  have low: "pow2 (?k - 1) \<le> q"
  proof -
    have "pow2 (bitlen n - 1) * of_int d \<le> of_int n * pow2 (bitlen d)"
      using bitlen_rat_bounds(1) [OF n] bitlen_rat_bounds(2) [OF d] d n
      by (intro mult_mono) auto
    then have "pow2 (bitlen n - 1) / pow2 (bitlen d) \<le> of_int n / of_int d"
      using d by (simp add: field_simps)
    then show ?thesis by (simp add: q pow2_diff [symmetric] algebra_simps)
  qed
  show "pow2 (flog2 q) \<le> q" "q < pow2 (flog2 q + 1)"
    using up low by (auto simp: flog2_def nd Let_def)
qed

lemma flog2_eq: "pow2 a \<le> q \<Longrightarrow> q < pow2 (a + 1) \<Longrightarrow> flog2 q = a"
  by (metis flog2_bounds flog2_unique less_le_trans pow2_pos)

lemma flog2_mono:
  assumes "0 < p" "p \<le> q"
  shows "flog2 p \<le> flog2 q"
proof -
  have "pow2 (flog2 p) < pow2 (flog2 q + 1)"
    using flog2_bounds [of p] flog2_bounds [of q] assms by linarith
  then show ?thesis by simp
qed

section \<open>Lemmas: rounding\<close>

lemma rne_of_int [simp]: "rne (of_int n) = n"
  by (simp add: rne_def)

lemma rne_0 [simp]: "rne 0 = 0"
  by (simp add: rne_def)

lemma rne_error: "\<bar>of_int (rne q) - q\<bar> \<le> 1 / 2"
proof -
  have "0 \<le> q - of_int \<lfloor>q\<rfloor>" "q - of_int \<lfloor>q\<rfloor> < 1"
    by linarith+
  then show ?thesis unfolding rne_def Let_def abs_le_iff by (auto simp del: of_int_floor_le)
qed

lemma rne_mono:
  assumes "p \<le> q"
  shows "rne p \<le> rne q"
proof (rule ccontr)
  assume "\<not> rne p \<le> rne q"
  then have gt: "rne q + 1 \<le> rne p" by simp
  then have "(of_int (rne q) + 1 :: rat) \<le> of_int (rne p)"
    by (metis of_int_1 of_int_add of_int_le_iff)
  then have "of_int (rne p) - p = 1 / 2" "q - of_int (rne q) = 1 / 2" "p = q"
    using rne_error [of p] rne_error [of q] assms by linarith+
  then show False using gt by simp
qed

lemma rne_unique:
  assumes "\<bar>of_int n - q\<bar> < 1 / 2"
  shows "rne q = n"
proof -
  have "\<bar>(of_int (rne q - n) :: rat)\<bar> < 1"
    using rne_error [of q] assms unfolding abs_le_iff abs_less_iff of_int_diff by linarith
  then have "\<bar>rne q - n\<bar> < 1" by linarith
  then show ?thesis by simp
qed

lemma rne_nonneg: "0 \<le> q \<Longrightarrow> 0 \<le> rne q"
  using rne_mono [of 0 q] by simp

lemma round_mag_nonneg [simp]: "0 \<le> round_mag q"
  by (auto simp: round_mag_def intro!: mult_nonneg_nonneg rne_nonneg divide_nonneg_pos)

lemma round_mag_0 [simp]: "round_mag 0 = 0"
  by (simp add: round_mag_def)

text \<open>A power of two that the format can represent is a fixed point of rounding.\<close>

lemma round_mag_multiple:
  assumes "0 < q" "q = of_int n * pow2 (ulp_exp q)"
  shows "round_mag q = q"
  using assms by (metis less_le_not_le nonzero_mult_div_cancel_right pow2_nonzero rne_of_int round_mag_def)

lemma ulp_exp_mono: "0 < p \<Longrightarrow> p \<le> q \<Longrightarrow> ulp_exp p \<le> ulp_exp q"
  using flog2_mono [of p q] by (simp add: ulp_exp_def)

lemma rne_pow2_ge:
  assumes "0 \<le> e" "pow2 e \<le> q"
  shows "pow2 e \<le> of_int (rne q)"
proof -
  have "rne (of_int (2 ^ nat e)) \<le> rne q"
    using assms by (intro rne_mono) (simp add: pow2_int_cast)
  then have "(of_int (2 ^ nat e) :: rat) \<le> of_int (rne q)"
    by (simp only: rne_of_int of_int_le_iff)
  with assms(1) show ?thesis by (simp add: pow2_int_cast)
qed

lemma rne_pow2_le:
  assumes "0 \<le> e" "q \<le> pow2 e"
  shows "of_int (rne q) \<le> pow2 e"
proof -
  have "rne q \<le> rne (of_int (2 ^ nat e))"
    using assms by (intro rne_mono) (simp add: pow2_int_cast)
  then have "(of_int (rne q) :: rat) \<le> of_int (2 ^ nat e)"
    by (simp only: rne_of_int of_int_le_iff)
  with assms(1) show ?thesis by (simp add: pow2_int_cast)
qed

lemma round_mag_le_pow2:
  assumes "q \<le> pow2 e" "- 1074 \<le> e"
  shows "round_mag q \<le> pow2 e"
proof (cases "0 < q")
  case True
  have "pow2 (flog2 q) \<le> pow2 e" using flog2_bounds [OF True] assms by linarith
  then have le: "flog2 q \<le> e" by (metis linorder_not_le pow2_less_iff)
  have "0 \<le> e - ulp_exp q" using le assms(2) by (simp add: ulp_exp_def)
  moreover have "q / pow2 (ulp_exp q) \<le> pow2 (e - ulp_exp q)"
    using assms(1) by (simp add: pow2_diff divide_right_mono)
  ultimately have "of_int (rne (q / pow2 (ulp_exp q))) \<le> pow2 (e - ulp_exp q)"
    by (rule rne_pow2_le)
  then show ?thesis using True
    by (simp add: round_mag_def pow2_diff field_simps)
qed (simp add: round_mag_def)

lemma round_mag_ge_pow2:
  assumes "pow2 e \<le> q" "- 1074 \<le> e"
  shows "pow2 e \<le> round_mag q"
proof -
  have q: "0 < q" using assms(1) pow2_pos [of e] by linarith
  show ?thesis
  proof (cases "ulp_exp q \<le> e")
    case True
    have "pow2 (e - ulp_exp q) \<le> q / pow2 (ulp_exp q)"
      using assms(1) by (simp add: pow2_diff divide_right_mono)
    with True have "pow2 (e - ulp_exp q) \<le> of_int (rne (q / pow2 (ulp_exp q)))"
      by (intro rne_pow2_ge) simp_all
    then show ?thesis using q by (simp add: round_mag_def pow2_diff field_simps)
  next
    case False
    then have "ulp_exp q = flog2 q - 52" using assms(2) by (simp add: ulp_exp_def max_def split: if_splits)
    then have "pow2 (ulp_exp q) * pow2 52 \<le> q"
      using flog2_bounds(1) [OF q] by (simp add: pow2_add [symmetric])
    then have "pow2 52 \<le> q / pow2 (ulp_exp q)"
      by (simp add: pos_le_divide_eq mult.commute)
    then have "pow2 52 \<le> of_int (rne (q / pow2 (ulp_exp q)))" by (intro rne_pow2_ge) simp_all
    moreover have "pow2 0 \<le> pow2 52" by (rule pow2_mono) simp
    ultimately have "1 \<le> (of_int (rne (q / pow2 (ulp_exp q))) :: rat)"
      by (simp add: pow2_def)
    then have "pow2 (ulp_exp q) \<le> round_mag q"
      using q by (simp add: round_mag_def)
    moreover have "pow2 e \<le> pow2 (ulp_exp q)" using False by (intro pow2_mono) simp
    ultimately show ?thesis by linarith
  qed
qed

text \<open>Rounding is monotone.\<close>

lemma round_mag_mono:
  assumes "p \<le> q"
  shows "round_mag p \<le> round_mag q"
proof (cases "0 < p")
  case True
  with assms have q: "0 < q" by linarith
  show ?thesis
  proof (cases "ulp_exp p = ulp_exp q")
    case True
    then have "rne (p / pow2 (ulp_exp p)) \<le> rne (q / pow2 (ulp_exp q))"
      using assms by (intro rne_mono) (simp add: divide_right_mono)
    then show ?thesis using \<open>0 < p\<close> q True
      by (auto simp: round_mag_def intro!: mult_right_mono)
  next
    case False
    with ulp_exp_mono [OF \<open>0 < p\<close> assms] have lt: "ulp_exp p < ulp_exp q" by simp
    then have "flog2 p < flog2 q" and big: "- 1074 < flog2 q - 52"
      by (auto simp: ulp_exp_def max_def split: if_splits)
    then have "pow2 (flog2 p + 1) \<le> pow2 (flog2 q)" by (intro pow2_mono) simp
    then have "p \<le> pow2 (flog2 q)" using flog2_bounds(2) [OF \<open>0 < p\<close>] by linarith
    then have "round_mag p \<le> pow2 (flog2 q)" using big by (intro round_mag_le_pow2) simp_all
    moreover have "pow2 (flog2 q) \<le> round_mag q"
      using flog2_bounds(1) [OF q] big by (intro round_mag_ge_pow2) simp_all
    ultimately show ?thesis by linarith
  qed
next
  case False
  then show ?thesis using round_mag_nonneg [of q] by (simp add: round_mag_def [of p])
qed

text \<open>The relative error of rounding in the normal range is at most \<open>2 ^ -53\<close>.\<close>

lemma round_mag_error:
  assumes "pow2 (- 1022) \<le> q"
  shows "\<bar>round_mag q - q\<bar> \<le> q / 2 ^ 53"
proof -
  have q: "0 < q" using assms pow2_pos [of "- 1022"] by linarith
  have "pow2 (- 1022) < pow2 (flog2 q + 1)" using flog2_bounds(2) [OF q] assms by linarith
  then have e: "ulp_exp q = flog2 q - 52" by (simp add: ulp_exp_def)
  let ?u = "pow2 (ulp_exp q)"
  have "round_mag q - q = (of_int (rne (q / ?u)) - q / ?u) * ?u"
    using q by (simp add: round_mag_def left_diff_distrib)
  then have "\<bar>round_mag q - q\<bar> = \<bar>of_int (rne (q / ?u)) - q / ?u\<bar> * ?u"
    by (simp only: abs_mult) simp
  also have "\<dots> \<le> 1 / 2 * ?u" by (intro mult_right_mono rne_error) simp
  finally have "\<bar>round_mag q - q\<bar> \<le> ?u / 2" by simp
  also have "\<dots> = pow2 (flog2 q) / 2 ^ 53"
    by (simp add: e pow2_diff pow2_def [of 52])
  also have "\<dots> \<le> q / 2 ^ 53"
    using flog2_bounds(1) [OF q] by (simp add: divide_right_mono)
  finally show ?thesis .
qed

lemma round_mag_int:
  assumes "0 \<le> n" "n \<le> 2 ^ 53"
  shows "round_mag (of_int n) = of_int n"
proof (cases "n = 0")
  case False
  with assms have n: "0 < (of_int n :: rat)" by simp
  show ?thesis
  proof (cases "n = 2 ^ 53")
    case True
    have "flog2 (of_int n) = 53" using True by (intro flog2_eq) (simp_all add: pow2_def)
    then have "ulp_exp (of_int n) = 1" by (simp add: ulp_exp_def)
    then show ?thesis
      using True n by (intro round_mag_multiple [where n = "2 ^ 52"]) (simp_all add: pow2_def)
  next
    case False
    with assms have "(of_int n :: rat) < of_int (2 ^ 53)"
      by (simp only: of_int_less_iff)
    then have "pow2 (flog2 (of_int n)) < pow2 53"
      using flog2_bounds(1) [OF n] by (simp add: pow2_def [of 53])
    then have f: "flog2 (of_int n) < 53" by simp
    let ?e = "ulp_exp (of_int n)"
    have e: "?e \<le> 0" using f by (simp add: ulp_exp_def)
    then have "of_int n = of_int (n * 2 ^ nat (- ?e)) * pow2 ?e"
      by (cases "?e = 0") (simp_all add: pow2_def)
    with n show ?thesis by (intro round_mag_multiple)
  qed
qed simp

section \<open>Lemmas: floating-point integers and comparisons\<close>

lemma pow2_1024_gt: "q \<le> 2 ^ 64 \<Longrightarrow> \<not> pow2 1024 \<le> round_mag q"
proof -
  assume "q \<le> 2 ^ 64"
  then have "round_mag q \<le> pow2 64" by (intro round_mag_le_pow2) (simp_all add: pow2_def)
  moreover have "pow2 64 < pow2 1024" by simp
  ultimately show ?thesis by linarith
qed

lemma f64_round_fin: "q \<le> 2 ^ 64 \<Longrightarrow> f64_round s q = FFin s (round_mag q)"
  by (simp add: f64_round_def pow2_1024_gt)

lemma f64_of_int_exact:
  assumes "0 \<le> n" "n \<le> 2 ^ 53"
  shows "f64_of_int n = FFin False (of_int n)"
proof -
  have "(of_int n :: rat) \<le> of_int (2 ^ 64)" using assms by (simp only: of_int_le_iff) simp
  then show ?thesis
    using assms by (simp add: f64_of_int_def f64_of_rat_def f64_round_fin round_mag_int)
qed

lemma f64_mul_int_exact:
  assumes "0 \<le> a" "0 \<le> b" "a * b \<le> 2 ^ 53"
  shows "f64_mul (FFin False (of_int a)) (FFin False (of_int b)) = FFin False (of_int (a * b))"
proof -
  have "(of_int (a * b) :: rat) \<le> of_int (2 ^ 64)" using assms(3) by (simp only: of_int_le_iff) simp
  moreover have "round_mag (of_int (a * b)) = of_int (a * b)"
    using assms by (intro round_mag_int) simp_all
  ultimately show ?thesis by (simp add: f64_round_fin)
qed

lemma f64_lt_irrefl [simp]: "\<not> f64_lt x x"
  by (cases x) auto

lemma f64_lt_trans: "f64_lt x y \<Longrightarrow> f64_lt y z \<Longrightarrow> f64_lt x z"
  by (cases x; cases y; cases z) auto

lemma f64_lt_asym: "f64_lt x y \<Longrightarrow> \<not> f64_lt y x"
  by (cases x; cases y) auto

lemma f64_eq_sym: "f64_eq x y \<Longrightarrow> f64_eq y x"
  by (cases x; cases y) auto

lemma f64_linear: "\<not> IsNaN x \<Longrightarrow> \<not> IsNaN y \<Longrightarrow> f64_lt x y \<or> f64_eq x y \<or> f64_lt y x"
  by (cases x; cases y) auto

lemma f64_lt_eq_trans: "f64_lt x y \<Longrightarrow> f64_eq y z \<Longrightarrow> f64_lt x z"
  by (cases x; cases y; cases z) auto

lemma f64_eq_lt_trans: "f64_eq x y \<Longrightarrow> f64_lt y z \<Longrightarrow> f64_lt x z"
  by (cases x; cases y; cases z) auto

lemma f64_not_lt_iff: "\<not> IsNaN x \<Longrightarrow> \<not> IsNaN y \<Longrightarrow> \<not> f64_lt x y \<longleftrightarrow> f64_le y x"
  by (cases x; cases y) (auto simp: f64_le_def)

text \<open>Equations that evaluate quickly.\<close>

lemma f64_of_int_code [code]:
  "f64_of_int n = (if 0 \<le> n \<and> n \<le> 9007199254740992 then FFin False (of_int n) else f64_of_rat (of_int n))"
  using f64_of_int_exact [of n] by (simp add: f64_of_int_def)

lemma round_mag_eq:
  assumes "pow2 e \<le> q" "q < pow2 (e + 1)" "- 1022 \<le> e" "\<bar>of_int n - q / pow2 (e - 52)\<bar> < 1 / 2"
  shows "round_mag q = of_int n * pow2 (e - 52)"
proof -
  have "flog2 q = e" using assms by (intro flog2_eq)
  then have u: "ulp_exp q = e - 52" using assms(3) by (simp add: ulp_exp_def)
  have "0 < q" using assms(1) pow2_pos [of e] by linarith
  moreover have "rne (q / pow2 (e - 52)) = n" using assms(4) rne_unique by metis
  ultimately show ?thesis by (simp add: round_mag_def u)
qed

end
