(* ===== verification/Problem.thy ===== *)
theory Problem
  imports Go_Float "HOL-Library.AList"
begin

text \<open>
  The structured error of \<open>internal/shared/problem/problem.go\<close> and the input checks of
  \<open>internal/shared/validation/validation.go\<close>. A function that returns \<open>(T, *problem.Problem)\<close> is
  a value of \<open>problem + 'a\<close> (\<open>Inl\<close> the problem), one that returns \<open>*problem.Problem\<close> is a
  \<open>problem option\<close> (\<open>None\<close> is nil). The message is the format string of the source: the arguments
  that \<open>fmt.Sprintf\<close> puts into it are not, since no code reads them back.
\<close>

datatype ProblemCode =
    ValidationFailed | InvalidArgument | NotFound | Conflict | Internal | Unavailable
  | OutOfOrder | Duplicate | IntegrityViolation

datatype detail = DInt int | DStr string | DFloat f64

record problem =
  pCode :: ProblemCode
  pMessage :: string
  pDetails :: "(string \<times> detail) list"
  pCause :: "string option"
  pRetryable :: bool

type_synonym 'a result = "problem + 'a"

definition New :: "ProblemCode \<Rightarrow> string \<Rightarrow> problem" where
  "New code msg = \<lparr>pCode = code, pMessage = msg, pDetails = [], pCause = None,
     pRetryable = False\<rparr>"

definition Newf :: "ProblemCode \<Rightarrow> string \<Rightarrow> problem" where
  "Newf code format = New code format"

definition WithDetail :: "problem option \<Rightarrow> string \<Rightarrow> detail \<Rightarrow> problem option" where
  "WithDetail p key v = map_option (\<lambda>q. q\<lparr>pDetails := AList.update key v (pDetails q)\<rparr>) p"

definition WithRetryable :: "problem option \<Rightarrow> problem option" where
  "WithRetryable p = map_option (\<lambda>q. q\<lparr>pRetryable := True\<rparr>) p"

definition Wrap :: "string \<Rightarrow> ProblemCode \<Rightarrow> string \<Rightarrow> problem" where
  "Wrap err code msg = (New code msg)\<lparr>pCause := Some err\<rparr>"

abbreviation detailed :: "problem \<Rightarrow> string \<Rightarrow> detail \<Rightarrow> problem" where
  "detailed p key v \<equiv> p\<lparr>pDetails := AList.update key v (pDetails p)\<rparr>"

section \<open>Validation\<close>

definition NonEmptyString :: "string \<Rightarrow> string \<Rightarrow> problem option" where
  "NonEmptyString fieldName v =
     (if TrimSpace v = [] then
        WithDetail (Some (Newf ValidationFailed ''%s must not be empty'')) ''field'' (DStr fieldName)
      else None)"

definition MaxLength :: "string \<Rightarrow> string \<Rightarrow> int \<Rightarrow> problem option" where
  "MaxLength fieldName v mx =
     (if mx < int (length v) then
        WithDetail (WithDetail (Some (Newf ValidationFailed ''%s must not exceed %d characters''))
          ''field'' (DStr fieldName)) ''max'' (DInt mx)
      else None)"

definition Positive :: "string \<Rightarrow> f64 \<Rightarrow> problem option" where
  "Positive fieldName v =
     (if f64_le v (f64_of_int 0) then
        WithDetail (WithDetail (Some (Newf ValidationFailed ''%s must be positive, got %s''))
          ''field'' (DStr fieldName)) ''value'' (DFloat v)
      else None)"

definition NonNegative :: "string \<Rightarrow> f64 \<Rightarrow> problem option" where
  "NonNegative fieldName v =
     (if f64_lt v (f64_of_int 0) then
        WithDetail (WithDetail (Some (Newf ValidationFailed ''%s must be non-negative, got %s''))
          ''field'' (DStr fieldName)) ''value'' (DFloat v)
      else None)"

definition WithinRangeInclusive :: "string \<Rightarrow> f64 \<Rightarrow> f64 \<Rightarrow> f64 \<Rightarrow> problem option" where
  "WithinRangeInclusive fieldName v mn mx =
     (if f64_lt v mn \<or> f64_gt v mx then
        WithDetail (WithDetail (WithDetail (Some (Newf ValidationFailed ''%s must be in [%s, %s], got %s''))
          ''field'' (DStr fieldName)) ''min'' (DFloat mn)) ''max'' (DFloat mx)
      else None)"

definition OneOf :: "string \<Rightarrow> string \<Rightarrow> string list \<Rightarrow> problem option" where
  "OneOf fieldName v allowed =
     (if v \<in> set allowed then None
      else WithDetail (WithDetail (Some (Newf ValidationFailed ''%s must be one of %v, got %q''))
        ''field'' (DStr fieldName)) ''value'' (DStr v))"

definition PositiveInt :: "string \<Rightarrow> int \<Rightarrow> problem option" where
  "PositiveInt fieldName v =
     (if v \<le> 0 then
        WithDetail (WithDetail (Some (Newf ValidationFailed ''%s must be positive, got %d''))
          ''field'' (DStr fieldName)) ''value'' (DInt v)
      else None)"

definition NonNegativeInt :: "string \<Rightarrow> int \<Rightarrow> problem option" where
  "NonNegativeInt fieldName v =
     (if v < 0 then
        WithDetail (WithDetail (Some (Newf ValidationFailed ''%s must be non-negative, got %d''))
          ''field'' (DStr fieldName)) ''value'' (DInt v)
      else None)"

definition NonEmptySliceLen :: "string \<Rightarrow> int \<Rightarrow> problem option" where
  "NonEmptySliceLen fieldName len =
     (if len = 0 then
        WithDetail (Some (Newf ValidationFailed ''%s must not be empty'')) ''field'' (DStr fieldName)
      else None)"

fun Collect_problems :: "problem option list \<Rightarrow> problem option" where
  "Collect_problems [] = None"
| "Collect_problems (p # ps) = (case p of Some q \<Rightarrow> Some q | None \<Rightarrow> Collect_problems ps)"

section \<open>Lemmas\<close>

lemma Collect_None_iff: "Collect_problems ps = None \<longleftrightarrow> (\<forall>p \<in> set ps. p = None)"
  by (induction ps) (auto split: option.splits)

lemma Collect_Some_mem: "Collect_problems ps = Some p \<Longrightarrow> Some p \<in> set ps"
  by (induction ps) (auto split: option.splits)

lemma NonEmptyString_None: "NonEmptyString f s = None \<longleftrightarrow> TrimSpace s \<noteq> []"
  by (simp add: NonEmptyString_def WithDetail_def)

lemma OneOf_None: "OneOf f v allowed = None \<longleftrightarrow> v \<in> set allowed"
  by (simp add: OneOf_def WithDetail_def)

lemma PositiveInt_None: "PositiveInt f v = None \<longleftrightarrow> 0 < v"
  by (auto simp: PositiveInt_def WithDetail_def)

lemma NonNegativeInt_None: "NonNegativeInt f v = None \<longleftrightarrow> 0 \<le> v"
  by (auto simp: NonNegativeInt_def WithDetail_def)

lemma NonEmptySliceLen_None: "NonEmptySliceLen f n = None \<longleftrightarrow> n \<noteq> 0"
  by (auto simp: NonEmptySliceLen_def WithDetail_def)

lemmas validators_None = Collect_None_iff NonEmptyString_None OneOf_None PositiveInt_None
  NonNegativeInt_None NonEmptySliceLen_None

lemma WithDetail_Some [simp]: "WithDetail (Some p) k v = Some (detailed p k v)"
  by (simp add: WithDetail_def)

lemma WithDetail_None [simp]: "WithDetail None k v = None"
  by (simp add: WithDetail_def)

lemma pCode_New [simp]: "pCode (New c m) = c" "pCode (Newf c m) = c"
  by (simp_all add: New_def Newf_def)

lemma validators_code:
  "NonEmptyString f s = Some p \<Longrightarrow> pCode p = ValidationFailed"
  "OneOf f s ss = Some p \<Longrightarrow> pCode p = ValidationFailed"
  "PositiveInt f v = Some p \<Longrightarrow> pCode p = ValidationFailed"
  "NonNegativeInt f v = Some p \<Longrightarrow> pCode p = ValidationFailed"
  by (auto simp: NonEmptyString_def OneOf_def PositiveInt_def NonNegativeInt_def split: if_splits)

end
