(* ===== verification/Naming.thy ===== *)
theory Naming
  imports Problem
begin

text \<open>
  \<open>internal/shared/naming/naming.go\<close>: the canonical forms of venues, instruments, event types,
  timeframes and sides. The lemmas say which of the normalisations are idempotent, which is what
  lets a component normalise a value that another one has normalised before.
\<close>

section \<open>Definitions\<close>

definition CanonicalVenue :: "string \<Rightarrow> string" where
  "CanonicalVenue venue = ToUpper (TrimSpace venue)"

definition separator_chars :: "char list" where
  "separator_chars = ''/-_.''"

definition CanonicalInstrument :: "string \<Rightarrow> string" where
  "CanonicalInstrument instrument =
     (let s = ToUpper (TrimSpace instrument) in filter (\<lambda>c. c \<notin> set separator_chars) s)"

definition CanonicalSymbol :: "string \<Rightarrow> string \<Rightarrow> string" where
  "CanonicalSymbol venue instrument =
     CanonicalVenue venue @ '':'' @ CanonicalInstrument instrument"

definition NormalizeEventType :: "string \<Rightarrow> string" where
  "NormalizeEventType eventType = ToLower (TrimSpace eventType)"

definition NormalizeTimeframe :: "string \<Rightarrow> string" where
  "NormalizeTimeframe tf = ToLower (TrimSpace tf)"

definition NormalizeSide :: "string \<Rightarrow> string" where
  "NormalizeSide side = ToLower (TrimSpace side)"

definition StripMarketType :: "string \<Rightarrow> string" where
  "StripMarketType instrument = takeWhile (\<lambda>c. c \<noteq> CHR '':'') instrument"

definition IsValidIdentifier :: "string \<Rightarrow> bool" where
  "IsValidIdentifier s =
     (if TrimSpace s = [] then False
      else list_all (\<lambda>r. is_upper r \<or> is_lower r \<or> is_digit r \<or> r = CHR ''-'' \<or> r = CHR ''_''
        \<or> r = CHR ''.'' \<or> r = CHR ''/'') s)"

section \<open>Lemmas\<close>

lemma CanonicalVenue_idem [simp]: "CanonicalVenue (CanonicalVenue v) = CanonicalVenue v"
  by (simp add: CanonicalVenue_def go_str)

lemma NormalizeEventType_idem [simp]:
  "NormalizeEventType (NormalizeEventType v) = NormalizeEventType v"
  by (simp add: NormalizeEventType_def go_str)

lemma CanonicalVenue_Nil [simp]: "CanonicalVenue v = [] \<longleftrightarrow> TrimSpace v = []"
  by (simp add: CanonicalVenue_def)

lemma to_upper_separator: "to_upper c \<in> set separator_chars \<longleftrightarrow> c \<in> set separator_chars"
proof -
  have inj: "c = d \<longleftrightarrow> (of_char c :: nat) = of_char d" for c d
    by (metis char_of_char)
  show ?thesis
    by (auto simp: separator_chars_def inj of_char_to_upper is_lower_def)
qed

lemma CanonicalInstrument_alt:
  "CanonicalInstrument s = ToUpper (filter (\<lambda>c. c \<notin> set separator_chars) (TrimSpace s))"
  by (simp add: CanonicalInstrument_def ToUpper_def filter_map o_def to_upper_separator)

lemma set_CanonicalInstrument:
  "c \<in> set (CanonicalInstrument s) \<Longrightarrow> c \<notin> set separator_chars"
  by (simp add: CanonicalInstrument_def)

lemma ToUpper_CanonicalInstrument [simp]: "ToUpper (CanonicalInstrument s) = CanonicalInstrument s"
  by (simp add: CanonicalInstrument_alt)

text \<open>A second pass trims what the first one has left, and does nothing else.\<close>

lemma CanonicalInstrument_twice:
  "CanonicalInstrument (CanonicalInstrument s) = TrimSpace (CanonicalInstrument s)"
proof -
  have "ToUpper (TrimSpace (CanonicalInstrument s)) = TrimSpace (CanonicalInstrument s)"
    by (simp flip: TrimSpace_ToUpper)
  moreover have "\<forall>c \<in> set (TrimSpace (CanonicalInstrument s)). c \<notin> set separator_chars"
    using set_TrimSpace set_CanonicalInstrument by blast
  ultimately show ?thesis
    unfolding CanonicalInstrument_def [of "CanonicalInstrument s"] Let_def by (simp add: filter_id_conv)
qed

lemma CanonicalInstrument_no_space:
  assumes "list_all (\<lambda>c. \<not> is_space c) (TrimSpace s)"
  shows "TrimSpace (CanonicalInstrument s) = CanonicalInstrument s"
  using assms by (intro TrimSpace_no_space) (auto simp: CanonicalInstrument_def ToUpper_def list_all_iff)

section \<open>Properties\<close>

text \<open>
  Property C25. Canonicalising an instrument twice is canonicalising it once and trimming what the
  removal of a separator has left at the ends. So the function is idempotent exactly on the inputs
  whose canonical form has no outer white space, which every input without inner white space
  has; the input \<open>- btc\<close> is not one of them.
\<close>

theorem canonical_instrument_second_pass:
  "CanonicalInstrument (CanonicalInstrument s) = TrimSpace (CanonicalInstrument s)
   \<and> (list_all (\<lambda>c. \<not> is_space c) (TrimSpace s) \<longrightarrow>
        CanonicalInstrument (CanonicalInstrument s) = CanonicalInstrument s)
   \<and> CanonicalInstrument (CanonicalInstrument ''- btc'') \<noteq> CanonicalInstrument ''- btc''"
proof -
  have "CanonicalInstrument ''- btc'' = '' BTC''" by code_simp
  moreover have "CanonicalInstrument '' BTC'' = ''BTC''" by code_simp
  ultimately show ?thesis
    using CanonicalInstrument_no_space [of s] by (simp add: CanonicalInstrument_twice)
qed

theorem canonical_instrument_second_pass_witness:
  "CanonicalInstrument (CanonicalInstrument ''btc/usdt'') = ''BTCUSDT''"
proof -
  have "list_all (\<lambda>c. \<not> is_space c) (TrimSpace ''btc/usdt'')" by code_simp
  moreover have "CanonicalInstrument ''btc/usdt'' = ''BTCUSDT''" by code_simp
  ultimately show ?thesis using canonical_instrument_second_pass [of "''btc/usdt''"] by metis
qed

end
