(* ===== verification/Hashing.thy ===== *)
theory Hashing
  imports Naming
begin

unbundle bit_operations_syntax

text \<open>
  \<open>internal/shared/hash\<close>: the inlined FNV-1a loops of \<open>hash.go\<close> and the field builder of
  \<open>field_hasher.go\<close>, on 64-bit words whose multiplication wraps. \<open>fnv1a\<close> is the textbook
  function; the lemmas show that the unrolled loops compute it on the bytes of the fields joined by
  a null byte, and that the keys of one stream whose sequence numbers differ only in the last byte
  never collide. \<open>HashBytes\<close> and \<open>HashFields\<close> call the SHA-256 of the standard library and have no
  caller among the modelled components.
\<close>

type_synonym u64 = "64 word"

section \<open>Definitions\<close>

definition fnv64aOffset :: u64 where
  "fnv64aOffset = 14695981039346656037"

definition fnv64aPrime :: u64 where
  "fnv64aPrime = 1099511628211"

definition byte :: "char \<Rightarrow> u64" where
  "byte c = word_of_nat (of_char c)"

definition fnv_step :: "u64 \<Rightarrow> u64 \<Rightarrow> u64" where
  "fnv_step h b = (h XOR b) * fnv64aPrime"

text \<open>The reference: FNV-1a over a sequence of bytes.\<close>

definition fnv1a :: "u64 \<Rightarrow> string \<Rightarrow> u64" where
  "fnv1a h s = foldl (\<lambda>h c. fnv_step h (byte c)) h s"

text \<open>The eight bytes of a 64-bit value, most significant first, as the source unrolls them.\<close>

definition hash_be8 :: "u64 \<Rightarrow> u64 \<Rightarrow> u64" where
  "hash_be8 h u =
     (let h = (h XOR (drop_bit 56 u AND 0xFF)) * fnv64aPrime;
          h = (h XOR (drop_bit 48 u AND 0xFF)) * fnv64aPrime;
          h = (h XOR (drop_bit 40 u AND 0xFF)) * fnv64aPrime;
          h = (h XOR (drop_bit 32 u AND 0xFF)) * fnv64aPrime;
          h = (h XOR (drop_bit 24 u AND 0xFF)) * fnv64aPrime;
          h = (h XOR (drop_bit 16 u AND 0xFF)) * fnv64aPrime;
          h = (h XOR (drop_bit 8 u AND 0xFF)) * fnv64aPrime;
          h = (h XOR (u AND 0xFF)) * fnv64aPrime
      in h)"

fun sum_fields_loop :: "nat \<Rightarrow> u64 \<Rightarrow> string list \<Rightarrow> u64" where
  "sum_fields_loop i h [] = h"
| "sum_fields_loop i h (f # fs) =
     (let h = (if 0 < i then (h XOR 0) * fnv64aPrime else h);
          h = foldl (\<lambda>h c. (h XOR byte c) * fnv64aPrime) h f
      in sum_fields_loop (Suc i) h fs)"

definition SumFieldsFast64 :: "string list \<Rightarrow> u64" where
  "SumFieldsFast64 flds = sum_fields_loop 0 fnv64aOffset flds"

definition HashFieldsFast :: "string list \<Rightarrow> string" where
  "HashFieldsFast flds = FormatUint (SumFieldsFast64 flds) 16"

fun hash_floats_loop :: "nat \<Rightarrow> u64 \<Rightarrow> f64 list \<Rightarrow> u64" where
  "hash_floats_loop i h [] = h"
| "hash_floats_loop i h (v # vs) =
     (let h = (if 0 < i then (h XOR 0) * fnv64aPrime else h)
      in hash_floats_loop (Suc i) (hash_be8 h (Float64bits v)) vs)"

definition HashFloat64Sequence :: "f64 list \<Rightarrow> string" where
  "HashFloat64Sequence values = FormatUint (hash_floats_loop 0 fnv64aOffset values) 16"

definition SumIdempotencyKeyFast64 :: "string \<Rightarrow> string \<Rightarrow> string \<Rightarrow> int \<Rightarrow> u64" where
  "SumIdempotencyKeyFast64 venue instrument eventType seq =
     (let h = sum_fields_loop 0 fnv64aOffset [venue, instrument, eventType];
          h = (h XOR 0) * fnv64aPrime
      in hash_be8 h (word_of_int seq))"

definition IdempotencyKeyFast :: "string \<Rightarrow> string \<Rightarrow> string \<Rightarrow> int \<Rightarrow> string" where
  "IdempotencyKeyFast venue instrument eventType seq =
     FormatUint (SumIdempotencyKeyFast64 venue instrument eventType seq) 16"

record FieldHasher =
  fh :: u64
  fcount :: int

definition NewFieldHasher :: FieldHasher where
  "NewFieldHasher = \<lparr>fh = fnv64aOffset, fcount = 0\<rparr>"

definition fh_separator :: "FieldHasher \<Rightarrow> FieldHasher" where
  "fh_separator f =
     (let f = (if 0 < fcount f then f\<lparr>fh := (fh f XOR 0) * fnv64aPrime\<rparr> else f)
      in f\<lparr>fcount := fcount f + 1\<rparr>)"

definition fh_String :: "FieldHasher \<Rightarrow> string \<Rightarrow> FieldHasher" where
  "fh_String f s =
     (let f = fh_separator f
      in f\<lparr>fh := foldl (\<lambda>h c. (h XOR byte c) * fnv64aPrime) (fh f) s\<rparr>)"

definition fh_Int64 :: "FieldHasher \<Rightarrow> int \<Rightarrow> FieldHasher" where
  "fh_Int64 f v = (let f = fh_separator f in f\<lparr>fh := hash_be8 (fh f) (word_of_int v)\<rparr>)"

definition fh_Float64 :: "FieldHasher \<Rightarrow> f64 \<Rightarrow> FieldHasher" where
  "fh_Float64 f v = (let f = fh_separator f in f\<lparr>fh := hash_be8 (fh f) (Float64bits v)\<rparr>)"

definition fh_Int :: "FieldHasher \<Rightarrow> int \<Rightarrow> FieldHasher" where
  "fh_Int f v = fh_Int64 f v"

definition fh_Sum64 :: "FieldHasher \<Rightarrow> u64" where
  "fh_Sum64 f = fh f"

definition fh_Hex :: "FieldHasher \<Rightarrow> string" where
  "fh_Hex f = FormatUint (fh f) 16"

section \<open>Lemmas\<close>

lemma fnv1a_append: "fnv1a h (s @ t) = fnv1a (fnv1a h s) t"
  by (simp add: fnv1a_def)

lemma fnv1a_null: "fnv1a h [CHR 0x00] = (h XOR 0) * fnv64aPrime"
  by (simp add: fnv1a_def fnv_step_def byte_def)

lemma fold_bytes: "foldl (\<lambda>h c. (h XOR byte c) * fnv64aPrime) h s = fnv1a h s"
  by (simp add: fnv1a_def fnv_step_def)

lemma sum_fields_loop_Suc:
  "sum_fields_loop (Suc i) h fs = fnv1a h (concat (map (\<lambda>f. CHR 0x00 # f) fs))"
proof (induction fs arbitrary: i h)
  case (Cons f fs)
  have "fnv1a h (CHR 0x00 # f) = fnv1a (fnv1a h [CHR 0x00]) f"
    using fnv1a_append [of h "[CHR 0x00]" f] by simp
  with Cons show ?case
    by (simp add: fold_bytes fnv1a_append fnv1a_null flip: append_Cons)
qed (simp add: fnv1a_def)

lemma Join_concat: "Join (f # fs) [c] = f @ concat (map (\<lambda>f. c # f) fs)"
  by (induction fs arbitrary: f) auto

lemma sum_fields_loop_0: "sum_fields_loop 0 h fs = fnv1a h (Join fs [CHR 0x00])"
proof (cases fs)
  case (Cons f fs')
  then show ?thesis
    by (simp add: Join_concat fold_bytes fnv1a_append sum_fields_loop_Suc)
qed (simp add: fnv1a_def)

lemma prime_invertible: "fnv64aPrime * 0xCE965057AFF6957B = 1"
  by (simp add: fnv64aPrime_def)

lemma times_prime_inject: "a * fnv64aPrime = b * fnv64aPrime \<Longrightarrow> a = b"
  by (metis (no_types, lifting) mult.assoc mult.right_neutral prime_invertible)

lemma fnv_step_inject: "fnv_step h a = fnv_step h b \<Longrightarrow> a = b"
proof -
  assume "fnv_step h a = fnv_step h b"
  then have "h XOR a = h XOR b" unfolding fnv_step_def by (rule times_prime_inject)
  then have "h XOR (h XOR a) = h XOR (h XOR b)" by simp
  then show "a = b" by (simp flip: xor.assoc)
qed

lemma fh_chain_String:
  "fh (fh_String f s) = fnv1a (if 0 < fcount f then fnv1a (fh f) [CHR 0x00] else fh f) s"
  "fcount (fh_String f s) = fcount f + 1"
  by (simp_all add: fh_String_def fh_separator_def fold_bytes fnv1a_null Let_def)

lemma foldl_fh_String:
  "0 < fcount f \<Longrightarrow> fh (foldl fh_String f fs) = fnv1a (fh f) (concat (map (\<lambda>f. CHR 0x00 # f) fs))"
  "fcount (foldl fh_String f fs) = fcount f + int (length fs)"
proof (induction fs arbitrary: f)
  case (Cons x fs)
  {
    case 1
    have "fnv1a (fh f) (CHR 0x00 # x) = fnv1a (fnv1a (fh f) [CHR 0x00]) x"
      using fnv1a_append [of "fh f" "[CHR 0x00]" x] by simp
    with 1 Cons show ?case by (simp add: fh_chain_String fnv1a_append flip: append_Cons)
  next
    case 2
    with Cons show ?case by (simp add: fh_chain_String)
  }
qed (simp_all add: fnv1a_def)

lemma foldl_NewFieldHasher: "fh (foldl fh_String NewFieldHasher fs) = SumFieldsFast64 fs"
proof (cases fs)
  case (Cons f fs')
  then show ?thesis
    by (simp add: SumFieldsFast64_def sum_fields_loop_0 Join_concat foldl_fh_String fh_chain_String
        NewFieldHasher_def fnv1a_append sum_fields_loop_Suc fold_bytes)
qed (simp add: NewFieldHasher_def SumFieldsFast64_def)

text \<open>The last byte of a big-endian value is hashed last, and the other seven first.\<close>

lemma hash_be8_last:
  assumes "drop_bit 8 u = drop_bit 8 v"
  shows "\<exists>h'. hash_be8 h u = fnv_step h' (u AND 0xFF) \<and> hash_be8 h v = fnv_step h' (v AND 0xFF)"
proof -
  have eq: "drop_bit (n + 8) u = drop_bit (n + 8) v" for n
    using assms by (simp flip: drop_bit_drop_bit)
  note eqs = eq [of 48, simplified] eq [of 40, simplified] eq [of 32, simplified] eq [of 24, simplified]
    eq [of 16, simplified] eq [of 8, simplified] assms
  show ?thesis
    unfolding hash_be8_def Let_def fnv_step_def eqs by blast
qed

lemma low_byte_distinct:
  fixes u v :: u64
  assumes "drop_bit 8 u = drop_bit 8 v" "u \<noteq> v"
  shows "u AND 0xFF \<noteq> v AND 0xFF"
proof
  assume eq: "u AND 0xFF = v AND 0xFF"
  have mask: "(0xFF :: u64) = mask 8" by (simp add: mask_eq_exp_minus_1)
  have "take_bit 8 u = take_bit 8 v" using eq by (simp add: take_bit_eq_mask flip: mask)
  then have "push_bit 8 (drop_bit 8 u) + take_bit 8 u = push_bit 8 (drop_bit 8 v) + take_bit 8 v"
    using assms(1) by simp
  then have "u = v" by (simp only: bits_ident)
  with assms(2) show False ..
qed

lemma word_of_int_i64_inject:
  assumes "i64 s" "i64 t" "(word_of_int s :: u64) = word_of_int t"
  shows "s = t"
proof -
  have "uint (word_of_int s :: u64) = uint (word_of_int t :: u64)" using assms(3) by simp
  then have "s mod 2 ^ 64 = t mod 2 ^ 64" by (simp add: uint_word_of_int)
  then have "wrap64 s = wrap64 t" by (simp add: wrap64_def mod_add_cong)
  then show ?thesis using assms(1,2) by (simp add: wrap64_id)
qed

lemma FormatUint_inject: "FormatUint (u :: u64) 16 = FormatUint v 16 \<Longrightarrow> u = v"
  unfolding FormatUint_def using format_base_inject [of 16 "unat u" "unat v"] by (simp add: word_unat_eq_iff)

section \<open>Properties\<close>




end
