(* ===== verification/Ownership.thy ===== *)
theory Ownership
  imports Hashing
begin

text \<open>
  \<open>internal/shared/ownership\<close>: the stream key and its owner replica (\<open>contract.go\<close>), the sequence
  policy \<open>DecideMonotonic\<close> (\<open>monotonic.go\<close>), and the delivery wrapper around it
  (\<open>actors/delivery/runtime/seq_policy.go\<close> and \<open>seq_policy_contract.go\<close>). Sequence numbers and
  watermarks are \<open>int64\<close>; the only subtraction of the policy, in \<open>staleGap\<close>, wraps.
\<close>

section \<open>The ownership contract\<close>

record StreamKey =
  skVenue :: string
  skInstrument :: string
  skChannel :: string
  skTimeframe :: string

definition canonicalLower :: "string \<Rightarrow> string" where
  "canonicalLower v = ToLower (TrimSpace v)"

definition canonicalUpper :: "string \<Rightarrow> string" where
  "canonicalUpper v = ToUpper (TrimSpace v)"

definition canonicalSubsystem :: "string \<Rightarrow> string" where
  "canonicalSubsystem v = (let s = canonicalLower v in if s = '''' then ''unknown'' else s)"

definition CanonicalLabel :: "StreamKey \<Rightarrow> string" where
  "CanonicalLabel key =
     canonicalLower (skVenue key) @ ''|'' @ canonicalUpper (skInstrument key) @ ''|'' @
     canonicalLower (skChannel key) @ ''|'' @ canonicalLower (skTimeframe key)"

definition ShardKey :: "string \<Rightarrow> StreamKey \<Rightarrow> u64" where
  "ShardKey subsystem key =
     SumFieldsFast64
       [canonicalSubsystem subsystem,
        canonicalLower (skVenue key),
        canonicalUpper (skInstrument key),
        canonicalLower (skChannel key),
        canonicalLower (skTimeframe key)]"

definition OwnerReplica :: "string \<Rightarrow> StreamKey \<Rightarrow> int \<Rightarrow> int" where
  "OwnerReplica subsystem key replicaCount =
     (if replicaCount \<le> 1 then 0
      else let ownerStr = FormatUint (ShardKey subsystem key mod word_of_int replicaCount) 10 in
        case ParseInt ownerStr of
          None \<Rightarrow> 0
        | Some owner \<Rightarrow> if owner < 0 \<or> owner \<ge> replicaCount then 0 else owner)"

section \<open>The sequence policy\<close>

datatype MonotonicAction = ActionAccept | ActionDrop | ActionConvertToResync

record MonotonicInput =
  mStreamKey :: string
  IsSnapshot :: bool
  CandidateSeq :: int
  CandidateWatermark :: int
  LastSeq :: int
  LastWatermark :: int
  CandidateOwner :: string
  LastOwner :: string
  HandoffWatermarkSeq :: int
  PendingResyncWatermark :: int
  StaleGapWindow :: int

record MonotonicDecision =
  Action :: MonotonicAction
  RejectReason :: string
  ViolationType :: string
  CoherenceReason :: string
  ResyncWatermark :: int
  Duplicate :: bool
  OutOfOrder :: bool

definition dropDecision :: "string \<Rightarrow> bool \<Rightarrow> bool \<Rightarrow> MonotonicDecision" where
  "dropDecision reason duplicate outOfOrder =
     \<lparr>Action = ActionDrop, RejectReason = reason, ViolationType = '''', CoherenceReason = reason,
      ResyncWatermark = 0, Duplicate = duplicate, OutOfOrder = outOfOrder\<rparr>"

definition invalidDecision :: MonotonicDecision where
  "invalidDecision =
     \<lparr>Action = ActionDrop, RejectReason = ''seq_invalid'', ViolationType = ''seq_invalid'',
      CoherenceReason = ''unknown'', ResyncWatermark = 0, Duplicate = False, OutOfOrder = False\<rparr>"

definition isInvalid :: "MonotonicInput \<Rightarrow> bool" where
  "isInvalid inp \<longleftrightarrow> TrimSpace (mStreamKey inp) = '''' \<or> CandidateSeq inp \<le> 0"

definition pendingResyncOverlap :: "MonotonicInput \<Rightarrow> bool" where
  "pendingResyncOverlap inp \<longleftrightarrow>
     PendingResyncWatermark inp > 0 \<and> \<not> IsSnapshot inp \<and> CandidateSeq inp \<le> PendingResyncWatermark inp"

definition replayDuplicate :: "MonotonicInput \<Rightarrow> bool" where
  "replayDuplicate inp \<longleftrightarrow> LastSeq inp > 0 \<and> CandidateSeq inp = LastSeq inp"

definition ownerChangeDecision :: "MonotonicInput \<Rightarrow> MonotonicDecision option" where
  "ownerChangeDecision inp =
     (if CandidateOwner inp = '''' \<or> LastOwner inp = '''' \<or> CandidateOwner inp = LastOwner inp then None
      else
        let watermark = HandoffWatermarkSeq inp;
            watermark = (if watermark < LastSeq inp then LastSeq inp else watermark) in
        if CandidateSeq inp > watermark then None
        else Some \<lparr>Action = ActionConvertToResync, RejectReason = ''owner_change'', ViolationType = '''',
               CoherenceReason = ''owner_change'', ResyncWatermark = watermark, Duplicate = False,
               OutOfOrder = True\<rparr>)"

definition snapshotOverlapDecision :: "MonotonicInput \<Rightarrow> MonotonicDecision option" where
  "snapshotOverlapDecision inp =
     (if \<not> IsSnapshot inp \<or> HandoffWatermarkSeq inp \<le> 0 \<or> CandidateSeq inp > HandoffWatermarkSeq inp
      then None
      else Some \<lparr>Action = ActionConvertToResync, RejectReason = ''resync_overlap'', ViolationType = '''',
             CoherenceReason = ''resync_overlap'', ResyncWatermark = HandoffWatermarkSeq inp,
             Duplicate = False, OutOfOrder = True\<rparr>)"

definition watermarkRegressed :: "MonotonicInput \<Rightarrow> bool" where
  "watermarkRegressed inp \<longleftrightarrow>
     LastWatermark inp > 0 \<and> CandidateWatermark inp > 0 \<and> CandidateWatermark inp < LastWatermark inp"

definition staleGap :: "MonotonicInput \<Rightarrow> bool" where
  "staleGap inp \<longleftrightarrow>
     (let gap = wrap64 (LastSeq inp - CandidateSeq inp) in gap > 0 \<and> gap \<le> StaleGapWindow inp)"

definition acceptDecision :: MonotonicDecision where
  "acceptDecision =
     \<lparr>Action = ActionAccept, RejectReason = '''', ViolationType = '''', CoherenceReason = '''',
      ResyncWatermark = 0, Duplicate = False, OutOfOrder = False\<rparr>"

definition DecideMonotonic :: "MonotonicInput \<Rightarrow> MonotonicDecision" where
  "DecideMonotonic inp =
     (if isInvalid inp then invalidDecision
      else if pendingResyncOverlap inp then dropDecision ''resync_overlap'' False True
      else if replayDuplicate inp then dropDecision ''replay_duplicate'' True False
      else case ownerChangeDecision inp of
        Some decision \<Rightarrow> decision
      | None \<Rightarrow> (case snapshotOverlapDecision inp of
          Some decision \<Rightarrow> decision
        | None \<Rightarrow>
            if LastSeq inp \<le> 0 \<or> CandidateSeq inp > LastSeq inp then acceptDecision
            else if watermarkRegressed inp then dropDecision ''stale_event'' False True
            else if staleGap inp then dropDecision ''stale_event'' False True
            else \<lparr>Action = ActionDrop, RejectReason = ''seq_non_monotonic'',
                   ViolationType = ''seq_non_monotonic'', CoherenceReason = ''out_of_order_input'',
                   ResyncWatermark = 0, Duplicate = False, OutOfOrder = True\<rparr>))"

section \<open>The delivery wrapper\<close>

datatype seqPolicyAction = seqPolicyActionAccept | seqPolicyActionDrop | seqPolicyActionConvertToResync

record seqPolicyInput =
  i_streamKey :: string
  i_eventType :: string
  i_candidateSeq :: int
  i_candidateTsIngest :: int
  i_lastSeq :: int
  i_lastTsIngest :: int
  i_candidateProcessorID :: string
  i_lastProcessorID :: string
  i_handoffWatermarkSeq :: int
  i_pendingResyncWatermark :: int

record seqPolicyDecision =
  d_action :: seqPolicyAction
  d_rejectReason :: string
  d_violationType :: string
  d_coherenceReason :: string
  d_resyncWatermark :: int
  d_duplicate :: bool
  d_outOfOrder :: bool

definition isSnapshotEventType :: "string \<Rightarrow> bool" where
  "isSnapshotEventType eventType = (let et = ToLower (TrimSpace eventType) in Contains et ''snapshot'')"

definition defaultSeqPolicyStaleGapWindow :: int where
  "defaultSeqPolicyStaleGapWindow = 2048"

definition monotonic_input :: "int \<Rightarrow> seqPolicyInput \<Rightarrow> MonotonicInput" where
  "monotonic_input staleGapWindow inp =
     \<lparr>mStreamKey = i_streamKey inp,
      IsSnapshot = isSnapshotEventType (i_eventType inp),
      CandidateSeq = i_candidateSeq inp,
      CandidateWatermark = i_candidateTsIngest inp,
      LastSeq = i_lastSeq inp,
      LastWatermark = i_lastTsIngest inp,
      CandidateOwner = i_candidateProcessorID inp,
      LastOwner = i_lastProcessorID inp,
      HandoffWatermarkSeq = i_handoffWatermarkSeq inp,
      PendingResyncWatermark = i_pendingResyncWatermark inp,
      StaleGapWindow = staleGapWindow\<rparr>"

definition Decide :: "int \<Rightarrow> seqPolicyInput \<Rightarrow> seqPolicyDecision" where
  "Decide staleGapWindow inp =
     (let decision = DecideMonotonic (monotonic_input staleGapWindow inp) in
      case Action decision of
        ActionAccept \<Rightarrow>
          \<lparr>d_action = seqPolicyActionAccept, d_rejectReason = '''', d_violationType = '''', d_coherenceReason = '''',
           d_resyncWatermark = 0, d_duplicate = False, d_outOfOrder = False\<rparr>
      | ActionConvertToResync \<Rightarrow>
          \<lparr>d_action = seqPolicyActionConvertToResync,
           d_rejectReason = RejectReason decision,
           d_violationType = '''',
           d_coherenceReason = CoherenceReason decision,
           d_resyncWatermark = ResyncWatermark decision,
           d_duplicate = Duplicate decision,
           d_outOfOrder = OutOfOrder decision\<rparr>
      | _ \<Rightarrow>
          \<lparr>d_action = seqPolicyActionDrop,
           d_rejectReason = RejectReason decision,
           d_violationType = ViolationType decision,
           d_coherenceReason = CoherenceReason decision,
           d_resyncWatermark = 0,
           d_duplicate = Duplicate decision,
           d_outOfOrder = OutOfOrder decision\<rparr>)"

text \<open>
  \<open>DecideSeqPolicyContract\<close> copies its input field by field into the record of the policy; the two
  records have the same fields, so the model uses one.
\<close>

definition DecideSeqPolicyContract :: "seqPolicyInput \<Rightarrow> MonotonicDecision" where
  "DecideSeqPolicyContract inp =
     (let decision = Decide defaultSeqPolicyStaleGapWindow inp in
      \<lparr>Action = (case d_action decision of
           seqPolicyActionAccept \<Rightarrow> ActionAccept
         | seqPolicyActionConvertToResync \<Rightarrow> ActionConvertToResync
         | _ \<Rightarrow> ActionDrop),
       RejectReason = d_rejectReason decision,
       ViolationType = d_violationType decision,
       CoherenceReason = d_coherenceReason decision,
       ResyncWatermark = d_resyncWatermark decision,
       Duplicate = d_duplicate decision,
       OutOfOrder = d_outOfOrder decision\<rparr>)"

text \<open>Metadata: an association list for the Go map, whose absent keys read as the empty string.\<close>

type_synonym meta = "(string \<times> string) list"

definition meta_get :: "meta \<Rightarrow> string \<Rightarrow> string" where
  "meta_get m key = (case map_of m key of None \<Rightarrow> '''' | Some v \<Rightarrow> v)"

definition parseInt64Meta :: "meta \<Rightarrow> string \<Rightarrow> int" where
  "parseInt64Meta m key =
     (if length m = 0 then 0
      else let raw = TrimSpace (meta_get m key) in
        if raw = '''' then 0
        else case ParseInt raw of None \<Rightarrow> 0 | Some v \<Rightarrow> v)"

definition handoffWatermarkFromMeta :: "meta \<Rightarrow> int" where
  "handoffWatermarkFromMeta m =
     (let w = parseInt64Meta m ''handoff_watermark_seq'' in
      if w > 0 then w else parseInt64Meta m ''watermark_seq'')"

text \<open>A snapshot of the same owner that overlaps the handoff watermark, for the witnesses.\<close>

definition example_input :: MonotonicInput where
  "example_input =
     \<lparr>mStreamKey = ''marketdata.trade/binance/BTCUSDT/raw'', IsSnapshot = True, CandidateSeq = 7,
      CandidateWatermark = 0, LastSeq = 5, LastWatermark = 0, CandidateOwner = ''p1'', LastOwner = ''p1'',
      HandoffWatermarkSeq = 9, PendingResyncWatermark = 0, StaleGapWindow = 2048\<rparr>"

section \<open>Lemmas\<close>

lemmas decision_defs = dropDecision_def invalidDecision_def acceptDecision_def
  ownerChangeDecision_def snapshotOverlapDecision_def

lemma Action_simps [simp]:
  "Action (dropDecision r d o') = ActionDrop" "Action invalidDecision = ActionDrop"
  "Action acceptDecision = ActionAccept"
  by (simp_all add: decision_defs)

lemma ownerChangeDecision_Some:
  "ownerChangeDecision inp = Some d \<Longrightarrow>
     Action d = ActionConvertToResync \<and> ViolationType d = '''' \<and>
     ResyncWatermark d = max (HandoffWatermarkSeq inp) (LastSeq inp) \<and> CandidateSeq inp \<le> ResyncWatermark d"
  by (auto simp: ownerChangeDecision_def Let_def split: if_splits)

lemma snapshotOverlapDecision_Some:
  "snapshotOverlapDecision inp = Some d \<Longrightarrow>
     Action d = ActionConvertToResync \<and> ViolationType d = '''' \<and>
     ResyncWatermark d = HandoffWatermarkSeq inp \<and> CandidateSeq inp \<le> ResyncWatermark d"
  by (auto simp: snapshotOverlapDecision_def split: if_splits)

lemma ownerChangeDecision_None:
  "ownerChangeDecision inp = None \<longleftrightarrow>
     CandidateOwner inp = '''' \<or> LastOwner inp = '''' \<or> CandidateOwner inp = LastOwner inp \<or>
     CandidateSeq inp > max (HandoffWatermarkSeq inp) (LastSeq inp)"
  by (auto simp: ownerChangeDecision_def Let_def)

lemma snapshotOverlapDecision_None:
  "snapshotOverlapDecision inp = None \<longleftrightarrow>
     \<not> IsSnapshot inp \<or> HandoffWatermarkSeq inp \<le> 0 \<or> CandidateSeq inp > HandoffWatermarkSeq inp"
  by (auto simp: snapshotOverlapDecision_def)

lemma DecideMonotonic_accept_iff:
  "Action (DecideMonotonic inp) = ActionAccept \<longleftrightarrow>
     \<not> isInvalid inp \<and> \<not> pendingResyncOverlap inp \<and>
     ownerChangeDecision inp = None \<and> snapshotOverlapDecision inp = None \<and>
     (LastSeq inp \<le> 0 \<or> CandidateSeq inp > LastSeq inp)"
  by (auto simp: DecideMonotonic_def replayDuplicate_def
      dest: ownerChangeDecision_Some snapshotOverlapDecision_Some split: option.splits)

lemma DecideMonotonic_accept: "Action (DecideMonotonic inp) = ActionAccept \<Longrightarrow> DecideMonotonic inp = acceptDecision"
  by (auto simp: DecideMonotonic_def dest: ownerChangeDecision_Some snapshotOverlapDecision_Some
      split: option.splits if_splits)

lemma DecideMonotonic_convert:
  "Action (DecideMonotonic inp) = ActionConvertToResync \<Longrightarrow>
     ViolationType (DecideMonotonic inp) = '''' \<and> CandidateSeq inp \<le> ResyncWatermark (DecideMonotonic inp)"
  by (auto simp: DecideMonotonic_def dest: ownerChangeDecision_Some snapshotOverlapDecision_Some
      split: option.splits if_splits)

lemma DecideMonotonic_drop:
  "Action (DecideMonotonic inp) = ActionDrop \<Longrightarrow> ResyncWatermark (DecideMonotonic inp) = 0"
  by (auto simp: DecideMonotonic_def dropDecision_def invalidDecision_def
      dest: ownerChangeDecision_Some snapshotOverlapDecision_Some split: option.splits if_splits)

lemma canonical_case [simp]:
  "canonicalLower (ToUpper v) = canonicalLower v" "canonicalLower (ToLower v) = canonicalLower v"
  "canonicalUpper (ToLower v) = canonicalUpper v" "canonicalUpper (ToUpper v) = canonicalUpper v"
  "canonicalLower (TrimSpace v) = canonicalLower v" "canonicalUpper (TrimSpace v) = canonicalUpper v"
  by (simp_all add: canonicalLower_def canonicalUpper_def TrimSpace_ToLower TrimSpace_ToUpper)

lemma OwnerReplica_mod:
  assumes "i64 replicaCount" and "1 < replicaCount"
  shows "OwnerReplica subsystem key replicaCount = uint (ShardKey subsystem key) mod replicaCount"
proof -
  have r: "uint (word_of_int replicaCount :: u64) = replicaCount"
    using assms by (simp add: uint_word_of_int i64_def)
  define w where "w = ShardKey subsystem key mod word_of_int replicaCount"
  have w: "uint w = uint (ShardKey subsystem key) mod replicaCount"
    unfolding w_def by (simp add: uint_mod r)
  then have bound: "0 \<le> uint w" "uint w < replicaCount" using assms by simp_all
  then have "int (unat w) < int (2 ^ 63)" using assms(1) by (simp add: i64_def)
  then have "unat w < 2 ^ 63" by (simp only: of_nat_less_iff)
  then have "ParseInt (FormatUint w 10) = Some (uint w)"
    by (simp add: FormatUint_def ParseInt_format)
  moreover have "\<not> uint w < 0" "\<not> replicaCount \<le> uint w" using bound by simp_all
  ultimately have "OwnerReplica subsystem key replicaCount = uint w"
    using assms(2) by (simp add: OwnerReplica_def flip: w_def)
  with w show ?thesis by simp
qed

section \<open>Properties\<close>

text \<open>
  Property C17. What the sequence policy accepts is exactly what is new: a positive sequence number on a
  named stream, above the last accepted one, above both the last one and the handoff watermark when
  the owner changed, above the handoff watermark for a snapshot, and above a pending resync watermark for
  anything else. When it asks for a resync, the watermark it names covers the rejected event.
\<close>

theorem decide_monotonic_accepts_new:
  "(Action (DecideMonotonic inp) = ActionAccept \<longleftrightarrow>
      TrimSpace (mStreamKey inp) \<noteq> '''' \<and> 0 < CandidateSeq inp \<and>
      LastSeq inp < CandidateSeq inp \<and>
      (IsSnapshot inp \<or> PendingResyncWatermark inp < CandidateSeq inp) \<and>
      (CandidateOwner inp = '''' \<or> LastOwner inp = '''' \<or> CandidateOwner inp = LastOwner inp \<or>
         max (HandoffWatermarkSeq inp) (LastSeq inp) < CandidateSeq inp) \<and>
      (IsSnapshot inp \<longrightarrow> HandoffWatermarkSeq inp < CandidateSeq inp))
   \<and> (Action (DecideMonotonic inp) = ActionConvertToResync \<longrightarrow>
        0 < CandidateSeq inp \<and> CandidateSeq inp \<le> ResyncWatermark (DecideMonotonic inp))"
proof -
  have "Action (DecideMonotonic inp) = ActionConvertToResync \<Longrightarrow> 0 < CandidateSeq inp"
    by (auto simp: DecideMonotonic_def isInvalid_def split: if_splits)
  then show ?thesis
    unfolding DecideMonotonic_accept_iff ownerChangeDecision_None snapshotOverlapDecision_None
    using DecideMonotonic_convert [of inp] by (auto simp: isInvalid_def pendingResyncOverlap_def)
qed

theorem decide_monotonic_accepts_new_witness:
  "CandidateSeq example_input \<le> ResyncWatermark (DecideMonotonic example_input) \<and>
   ResyncWatermark (DecideMonotonic example_input) = 9"
proof -
  have "Action (DecideMonotonic example_input) = ActionConvertToResync" by code_simp
  moreover have "ResyncWatermark (DecideMonotonic example_input) = 9" by code_simp
  ultimately show ?thesis using decide_monotonic_accepts_new [of example_input] by blast
qed


text \<open>
  Property C19. Every stream has one owner among the replicas: the detour over the decimal string never
  fails, so the owner is the shard key modulo the number of replicas, inside the range; and it depends on
  neither the case nor the outer white space of the key's parts.
\<close>

theorem owner_replica_in_range:
  assumes "i64 replicaCount"
  shows "0 \<le> OwnerReplica subsystem key replicaCount
    \<and> OwnerReplica subsystem key replicaCount < max 1 replicaCount
    \<and> OwnerReplica subsystem key replicaCount =
        (if 1 < replicaCount then uint (ShardKey subsystem key) mod replicaCount else 0)
    \<and> OwnerReplica subsystem
        (key\<lparr>skVenue := ToUpper (skVenue key), skInstrument := ToLower (TrimSpace (skInstrument key))\<rparr>)
        replicaCount = OwnerReplica subsystem key replicaCount"
proof -
  have "ShardKey subsystem
      (key\<lparr>skVenue := ToUpper (skVenue key), skInstrument := ToLower (TrimSpace (skInstrument key))\<rparr>) =
      ShardKey subsystem key"
    by (simp add: ShardKey_def)
  then have "OwnerReplica subsystem
      (key\<lparr>skVenue := ToUpper (skVenue key), skInstrument := ToLower (TrimSpace (skInstrument key))\<rparr>)
      replicaCount = OwnerReplica subsystem key replicaCount"
    by (simp add: OwnerReplica_def)
  moreover have "\<not> 1 < replicaCount \<Longrightarrow> OwnerReplica subsystem key replicaCount = 0"
    by (simp add: OwnerReplica_def)
  ultimately show ?thesis
    using OwnerReplica_mod [OF assms, of subsystem key] by (cases "1 < replicaCount") simp_all
qed

theorem owner_replica_in_range_witness:
  "OwnerReplica ''delivery'' \<lparr>skVenue = ''binance'', skInstrument = ''BTCUSDT'',
     skChannel = ''trade'', skTimeframe = ''raw''\<rparr> 3 < 3"
  using owner_replica_in_range [of 3] by (simp add: i64_def)

end
