(* ===== verification/Envelope.thy ===== *)
theory Envelope
  imports Ownership "HOL-Library.AList"
begin

text \<open>
  The event envelope (\<open>internal/shared/envelope/envelope.go\<close>, \<open>subject.go\<close>) and the JetStream side of
  its subject: the taxonomy check (\<open>adapters/jetstream/subject_validation.go\<close>) and the assignment of
  subjects to processor groups (\<open>adapters/jetstream/shard.go\<close>). \<open>Validate\<close> writes the content type
  back into the envelope, so it returns the envelope together with the problem. The regular expressions
  of the taxonomy are the character classes they spell out.
\<close>

section \<open>The envelope\<close>

record Envelope =
  env_Type :: string
  env_Version :: int
  env_Venue :: string
  env_Instrument :: string
  env_TsExchange :: int
  env_TsIngest :: int
  env_Seq :: int
  env_IdempotencyKey :: string
  env_ContentType :: string
  env_Meta :: meta
  env_Payload :: string
  env_topicKey :: string

definition ContentTypeJSON :: string where
  "ContentTypeJSON = ''application/json''"

definition ContentTypeProto :: string where
  "ContentTypeProto = ''application/protobuf''"

definition NormalizeContentType :: "string \<Rightarrow> string result" where
  "NormalizeContentType contentType =
     (let ct = ToLower (TrimSpace contentType) in
      if ct = '''' then Inr ContentTypeJSON
      else if ct = ContentTypeJSON then Inr ContentTypeJSON
      else if ct = ContentTypeProto then Inr ContentTypeProto
      else Inl (detailed (detailed (Newf ValidationFailed ''unsupported envelope content_type %q'')
             ''field'' (DStr ''content_type'')) ''value'' (DStr contentType)))"

definition Validate :: "Envelope \<Rightarrow> Envelope \<times> problem option" where
  "Validate e =
     (if TrimSpace (env_Type e) = '''' then
        (e, Some (detailed (New ValidationFailed ''envelope type must not be empty'')
               ''field'' (DStr ''type'')))
      else if env_Version e < 1 then
        (e, Some (detailed (detailed (Newf ValidationFailed ''envelope version must be >= 1, got %d'')
               ''field'' (DStr ''version'')) ''value'' (DInt (env_Version e))))
      else if TrimSpace (env_Venue e) = '''' then
        (e, Some (detailed (New ValidationFailed ''envelope venue must not be empty'')
               ''field'' (DStr ''venue'')))
      else if TrimSpace (env_Instrument e) = '''' then
        (e, Some (detailed (New ValidationFailed ''envelope instrument must not be empty'')
               ''field'' (DStr ''instrument'')))
      else if env_TsIngest e \<le> 0 then
        (e, Some (detailed (detailed (Newf ValidationFailed ''envelope ts_ingest must be positive, got %d'')
               ''field'' (DStr ''ts_ingest'')) ''value'' (DInt (env_TsIngest e))))
      else if env_Seq e < 0 then
        (e, Some (detailed (detailed (Newf ValidationFailed ''envelope seq must be non-negative, got %d'')
               ''field'' (DStr ''seq'')) ''value'' (DInt (env_Seq e))))
      else if TrimSpace (env_IdempotencyKey e) = '''' then
        (e, Some (detailed (New ValidationFailed ''envelope idempotency_key must not be empty'')
               ''field'' (DStr ''idempotency_key'')))
      else case NormalizeContentType (env_ContentType e) of
        Inl p \<Rightarrow> (e, Some p)
      | Inr contentType \<Rightarrow>
          let e = e\<lparr>env_ContentType := contentType\<rparr> in
          if length (env_Payload e) = 0 then
            (e, Some (detailed (New ValidationFailed ''envelope payload must not be empty'')
                   ''field'' (DStr ''payload'')))
          else (e, None))"

definition TopicKey :: "Envelope \<Rightarrow> Envelope \<times> string" where
  "TopicKey e =
     (if env_topicKey e \<noteq> '''' then (e, env_topicKey e)
      else
        let venue = ToLower (TrimSpace (env_Venue e));
            instrument = ToLower (TrimSpace (env_Instrument e));
            eventType = ToLower (TrimSpace (env_Type e));
            key = eventType @ ''.'' @ venue @ ''.'' @ instrument
        in (e\<lparr>env_topicKey := key\<rparr>, key))"

definition WithMeta :: "Envelope \<Rightarrow> string \<Rightarrow> string \<Rightarrow> Envelope" where
  "WithMeta e key v = e\<lparr>env_Meta := AList.update key v (env_Meta e)\<rparr>"

definition isUpperAlphaNumeric :: "string \<Rightarrow> bool" where
  "isUpperAlphaNumeric s = list_all (\<lambda>ch. is_upper ch \<or> is_digit ch) s"

definition normalizeSubjectInstrument :: "string \<Rightarrow> string" where
  "normalizeSubjectInstrument instrument =
     (let raw = ToUpper (TrimSpace instrument) in
      if raw = '''' then ''UNKNOWN''
      else if isUpperAlphaNumeric raw then raw
      else let b = filter (\<lambda>r. is_upper r \<or> is_lower r \<or> is_digit r) raw in
        if length b = 0 then ''UNKNOWN'' else b)"

definition SubjectFromEnvelope :: "Envelope \<Rightarrow> string" where
  "SubjectFromEnvelope env =
     (let eventType = ToLower (TrimSpace (env_Type env));
          eventType = (if eventType = '''' then ''unknown'' else eventType);
          version = (if env_Version env \<le> 0 then 1 else env_Version env);
          venue = ToLower (TrimSpace (env_Venue env));
          venue = (if venue = '''' then ''unknown'' else venue);
          instrument = normalizeSubjectInstrument (env_Instrument env)
      in eventType @ ''.v'' @ Itoa version @ ''.'' @ venue @ ''.'' @ instrument)"

section \<open>The subject taxonomy of JetStream\<close>

definition event_char :: "char \<Rightarrow> bool" where
  "event_char c \<longleftrightarrow> is_lower c \<or> is_digit c \<or> c = CHR ''_''"

definition subjectEventPattern :: "string \<Rightarrow> bool" where
  "subjectEventPattern s = list_all (\<lambda>t. t \<noteq> '''' \<and> list_all event_char t) (Split CHR ''.'' s)"

fun subjectVersionPattern :: "string \<Rightarrow> bool" where
  "subjectVersionPattern (v # d # ds) \<longleftrightarrow>
     v = CHR ''v'' \<and> is_digit d \<and> d \<noteq> CHR ''0'' \<and> list_all is_digit ds"
| "subjectVersionPattern _ = False"

definition subjectTokenPattern :: "string \<Rightarrow> bool" where
  "subjectTokenPattern s \<longleftrightarrow>
     s \<noteq> '''' \<and>
     list_all (\<lambda>c. is_upper c \<or> is_lower c \<or> is_digit c \<or> c = CHR ''_'' \<or> c = CHR ''-'') s"

definition allowedSubjectRoots :: "string list" where
  "allowedSubjectRoots =
     [''aggregation'', ''dataplane'', ''evidence'', ''execution'', ''insights'', ''liquidity'',
      ''marketdata'', ''portfolio'', ''quarantine'', ''signal'', ''strategy'']"

definition splitSubjectTaxonomy :: "string \<Rightarrow> (string \<times> string \<times> string \<times> string) result" where
  "splitSubjectTaxonomy subject =
     (let subject = TrimSpace subject in
      if subject = '''' then Inl (New ValidationFailed ''subject must not be empty'')
      else if ContainsAny subject [CHR '' '', CHR 0x09, CHR 0x0D, CHR 0x0A, CHR ''*'', CHR ''>''] then
        Inl (Newf ValidationFailed ''subject %q must be concrete and without spaces'')
      else
        let tokens = Split CHR ''.'' subject; n = length tokens in
        if n < 4 then Inl (Newf ValidationFailed ''subject %q must have at least 4 tokens'')
        else if list_ex (\<lambda>token. TrimSpace token = '''') tokens then
          Inl (Newf ValidationFailed ''subject %q has empty token'')
        else Inr (Join (take (n - 3) tokens) ''.'', tokens ! (n - 3), tokens ! (n - 2), tokens ! (n - 1)))"

definition ValidateSubjectTaxonomy :: "string \<Rightarrow> problem option" where
  "ValidateSubjectTaxonomy subject =
     (case splitSubjectTaxonomy subject of
        Inl err \<Rightarrow> Some err
      | Inr (event, version, venue, instrument) \<Rightarrow>
          if \<not> subjectEventPattern event then
            Some (Newf ValidationFailed ''subject event %q is invalid'')
          else if \<not> subjectVersionPattern version then
            Some (Newf ValidationFailed ''subject version %q must be v{int}'')
          else if \<not> subjectTokenPattern venue then
            Some (Newf ValidationFailed ''subject venue %q is invalid'')
          else if \<not> subjectTokenPattern instrument then
            Some (Newf ValidationFailed ''subject instrument %q is invalid'')
          else if Split CHR ''.'' event ! 0 \<notin> set allowedSubjectRoots then
            Some (Newf ValidationFailed ''subject root %q is not allowed'')
          else None)"

text \<open>
  The loop over the tokens of a pattern. \<open>n\<close> is the number of tokens and \<open>i\<close> the index of the next
  one; the loop returns whether a wildcard was seen, or the problem it stops with.
\<close>

fun pattern_loop :: "nat \<Rightarrow> nat \<Rightarrow> bool \<Rightarrow> string list \<Rightarrow> bool result" where
  "pattern_loop n i hasWildcard [] = Inr hasWildcard"
| "pattern_loop n i hasWildcard (token # tokens) =
     (if token = '''' then Inl (Newf ValidationFailed ''subject pattern %q has an empty token'')
      else if token = ''*'' then pattern_loop n (Suc i) True tokens
      else if token = ''>'' then
        (if i \<noteq> n - 1 then Inl (Newf ValidationFailed ''subject pattern %q has invalid > placement'')
         else pattern_loop n (Suc i) True tokens)
      else if ContainsAny token ''*>'' then
        Inl (Newf ValidationFailed ''subject pattern %q has invalid wildcard token %q'')
      else if \<not> subjectTokenPattern token then
        Inl (Newf ValidationFailed ''subject pattern %q token %q is invalid'')
      else pattern_loop n (Suc i) hasWildcard tokens)"

definition ValidateSubjectPattern :: "string \<Rightarrow> problem option" where
  "ValidateSubjectPattern pattern =
     (let pattern = TrimSpace pattern in
      if pattern = '''' then Some (New ValidationFailed ''subject pattern must not be empty'')
      else if ContainsAny pattern [CHR '' '', CHR 0x09, CHR 0x0D, CHR 0x0A] then
        Some (Newf ValidationFailed ''subject pattern %q must not contain spaces'')
      else
        let tokens = Split CHR ''.'' pattern in
        if length tokens < 2 then
          Some (Newf ValidationFailed ''subject pattern %q must have at least 2 tokens'')
        else if tokens ! 0 \<notin> set allowedSubjectRoots then
          Some (Newf ValidationFailed ''subject pattern root %q is not allowed'')
        else case pattern_loop (length tokens) 0 False tokens of
          Inl err \<Rightarrow> Some err
        | Inr hasWildcard \<Rightarrow> if hasWildcard then None else ValidateSubjectTaxonomy pattern)"

section \<open>Processor groups\<close>

text \<open>FNV-1a on 32 bits, as \<open>hash/fnv\<close> of the standard library computes it.\<close>

definition fnv32a :: "32 word \<Rightarrow> string \<Rightarrow> 32 word" where
  "fnv32a h s = foldl (\<lambda>h c. (h XOR word_of_nat (of_char c)) * 16777619) h s"

definition js_ShardKey :: "string \<Rightarrow> 32 word" where
  "js_ShardKey subject =
     (case splitSubjectTaxonomy subject of
        Inl err \<Rightarrow> fnv32a 2166136261 subject
      | Inr (event, version, venue, instrument) \<Rightarrow>
          let h = fnv32a 2166136261 venue;
              h = fnv32a h [CHR 0x00]
          in fnv32a h instrument)"

text \<open>The conversion to \<open>uint32\<close> keeps the low 32 bits; the remainder by zero panics (\<open>None\<close>).\<close>

definition ShardGroup :: "32 word \<Rightarrow> int \<Rightarrow> int option" where
  "ShardGroup shardKey groupCount =
     (if groupCount \<le> 1 then Some 0
      else let d = (word_of_int groupCount :: 32 word) in
        if d = 0 then None else Some (uint (shardKey mod d)))"

definition subjectBelongsToOtherShard :: "string \<Rightarrow> int \<Rightarrow> int \<Rightarrow> bool option" where
  "subjectBelongsToOtherShard subject groupCount myGroupID =
     (if groupCount \<le> 1 then Some False
      else case ShardGroup (js_ShardKey subject) groupCount of
        None \<Rightarrow> None
      | Some g \<Rightarrow> Some (g \<noteq> myGroupID))"

section \<open>Specification\<close>

text \<open>The part of the envelope check that reads fields only.\<close>

definition header_ok :: "Envelope \<Rightarrow> bool" where
  "header_ok e \<longleftrightarrow>
     TrimSpace (env_Type e) \<noteq> '''' \<and> 1 \<le> env_Version e \<and> TrimSpace (env_Venue e) \<noteq> '''' \<and>
     TrimSpace (env_Instrument e) \<noteq> '''' \<and> 0 < env_TsIngest e \<and> 0 \<le> env_Seq e \<and>
     TrimSpace (env_IdempotencyKey e) \<noteq> ''''"

text \<open>The characters of a subject token.\<close>

definition subject_char :: "char \<Rightarrow> bool" where
  "subject_char c \<longleftrightarrow> is_upper c \<or> is_lower c \<or> is_digit c \<or> c = CHR ''_'' \<or> c = CHR ''-''"

text \<open>A trade envelope, for the witnesses.\<close>

definition example_envelope :: Envelope where
  "example_envelope =
     \<lparr>env_Type = ''marketdata.trade'', env_Version = 1, env_Venue = ''Binance'',
      env_Instrument = ''BTC-USDT'', env_TsExchange = 0, env_TsIngest = 1, env_Seq = 1,
      env_IdempotencyKey = ''k'', env_ContentType = '''', env_Meta = [], env_Payload = ''x'',
      env_topicKey = ''''\<rparr>"

section \<open>Lemmas\<close>

lemma NormalizeContentType_cases:
  "NormalizeContentType ct = Inr r \<Longrightarrow> r = ContentTypeJSON \<or> r = ContentTypeProto"
  "NormalizeContentType ct = Inl p \<Longrightarrow> pCode p = ValidationFailed"
  by (auto simp: NormalizeContentType_def Newf_def New_def Let_def split: if_splits)

lemma NormalizeContentType_ok_iff:
  "(\<exists>r. NormalizeContentType ct = Inr r) \<longleftrightarrow>
     ToLower (TrimSpace ct) \<in> {'''', ContentTypeJSON, ContentTypeProto}"
  by (auto simp: NormalizeContentType_def Let_def)

lemma NormalizeContentType_fixed [simp]:
  "NormalizeContentType ContentTypeJSON = Inr ContentTypeJSON"
  "NormalizeContentType ContentTypeProto = Inr ContentTypeProto"
proof -
  have "ToLower (TrimSpace ContentTypeJSON) = ContentTypeJSON" by code_simp
  moreover have "ToLower (TrimSpace ContentTypeProto) = ContentTypeProto" by code_simp
  moreover have "ContentTypeProto \<noteq> ContentTypeJSON" by code_simp
  ultimately show "NormalizeContentType ContentTypeJSON = Inr ContentTypeJSON"
    "NormalizeContentType ContentTypeProto = Inr ContentTypeProto"
    by (simp_all add: NormalizeContentType_def ContentTypeProto_def)
qed

lemma Validate_header_bad:
  "\<not> header_ok e \<Longrightarrow> fst (Validate e) = e \<and> (\<exists>p. snd (Validate e) = Some p \<and> pCode p = ValidationFailed)"
  by (auto simp: header_ok_def Validate_def Newf_def New_def)

lemma Validate_header_ok:
  "header_ok e \<Longrightarrow> Validate e =
     (case NormalizeContentType (env_ContentType e) of
        Inl p \<Rightarrow> (e, Some p)
      | Inr ct \<Rightarrow> (e\<lparr>env_ContentType := ct\<rparr>,
          if env_Payload e = '''' then
            Some (detailed (New ValidationFailed ''envelope payload must not be empty'')
                   ''field'' (DStr ''payload''))
          else None))"
  by (auto simp: header_ok_def Validate_def Let_def split: sum.split)

lemma upper_not_lower: "c \<in> set (ToUpper s) \<Longrightarrow> \<not> is_lower c"
  using to_upper_not_lower by (auto simp: ToUpper_def)

lemma normalizeSubjectInstrument_alnum:
  "normalizeSubjectInstrument s \<noteq> '''' \<and>
   list_all (\<lambda>c. is_upper c \<or> is_digit c) (normalizeSubjectInstrument s)"
proof -
  have "list_all (\<lambda>c. is_upper c \<or> is_digit c) ''UNKNOWN''" by code_simp
  then show ?thesis
    by (auto simp: normalizeSubjectInstrument_def isUpperAlphaNumeric_def Let_def list_all_iff
        dest: upper_not_lower)
qed

lemma token_of_alnum: "s \<noteq> '''' \<Longrightarrow> list_all (\<lambda>c. is_upper c \<or> is_digit c) s \<Longrightarrow> subjectTokenPattern s"
  by (auto simp: subjectTokenPattern_def list_all_iff)

lemma subject_char_plain:
  assumes "subject_char c"
  shows "\<not> is_space c" "c \<notin> {CHR '' '', CHR 0x09, CHR 0x0D, CHR 0x0A, CHR ''*'', CHR ''>'', CHR ''.''}"
  using assms by (auto simp: subject_char_def is_space_code is_upper_def is_lower_def is_digit_def)

lemma subjectTokenPattern_iff: "subjectTokenPattern s \<longleftrightarrow> s \<noteq> '''' \<and> (\<forall>c \<in> set s. subject_char c)"
  by (simp add: subjectTokenPattern_def subject_char_def list_all_iff)

lemma event_tokens:
  "subjectEventPattern s \<Longrightarrow> t \<in> set (Split CHR ''.'' s) \<Longrightarrow> t \<noteq> '''' \<and> (\<forall>c \<in> set t. subject_char c)"
  by (auto simp: subjectEventPattern_def subject_char_def event_char_def list_all_iff)

lemma set_Join: "set (Join ts sep) \<subseteq> (\<Union>t \<in> set ts. set t) \<union> set sep"
proof (induction ts)
  case (Cons t ts)
  then show ?case by (cases ts) auto
qed simp

lemma splitSubjectTaxonomy_parts:
  assumes "subjectEventPattern ev" "subjectTokenPattern v" "subjectTokenPattern ve" "subjectTokenPattern ins"
  shows "splitSubjectTaxonomy (ev @ ''.'' @ v @ ''.'' @ ve @ ''.'' @ ins) = Inr (ev, v, ve, ins)"
proof -
  let ?s = "ev @ ''.'' @ v @ ''.'' @ ve @ ''.'' @ ins"
  let ?ts = "Split CHR ''.'' ev @ [v, ve, ins]"
  have tok: "t \<noteq> '''' \<and> (\<forall>c \<in> set t. subject_char c)" if "t \<in> set ?ts" for t
    using that assms event_tokens [OF assms(1)] by (auto simp: subjectTokenPattern_iff)
  have split: "Split CHR ''.'' ?s = ?ts"
  proof -
    have "Split CHR ''.'' t = [t]" if "t \<in> {v, ve, ins}" for t
      using tok that subject_char_plain(2) by (intro Split_no_sep) auto
    then show ?thesis by (simp add: Split_append_sep)
  qed
  have chars: "subject_char c \<or> c = CHR ''.''" if "c \<in> set ?s" for c
  proof -
    have "set ?s \<subseteq> (\<Union>t \<in> set ?ts. set t) \<union> {CHR ''.''}"
      using set_Join [of ?ts "''.''"] Join_Split [of "CHR ''.''" ?s] unfolding split by simp
    with that tok show ?thesis by blast
  qed
  have "\<not> is_space CHR ''.''" by code_simp
  then have plain: "\<not> is_space c" "c \<notin> set [CHR '' '', CHR 0x09, CHR 0x0D, CHR 0x0A, CHR ''*'', CHR ''>'']"
    if "c \<in> set ?s" for c
    using chars [OF that] subject_char_plain [of c] by auto
  have "TrimSpace ?s = ?s"
    using plain(1) by (intro TrimSpace_no_space) (simp only: list_all_iff, blast)
  moreover have "\<not> ContainsAny ?s [CHR '' '', CHR 0x09, CHR 0x0D, CHR 0x0A, CHR ''*'', CHR ''>'']"
    using plain(2) unfolding ContainsAny_def by blast
  moreover have "TrimSpace t \<noteq> ''''" if "t \<in> set ?ts" for t
    using tok [OF that] subject_char_plain(1) by (cases t) (auto simp: TrimSpace_Nil_iff)
  then have "\<not> list_ex (\<lambda>token. TrimSpace token = '''') ?ts"
    unfolding list_ex_iff by blast
  moreover have "length (Split CHR ''.'' ev) \<ge> 1" by (cases "Split CHR ''.'' ev") auto
  ultimately show ?thesis
    using split by (simp add: splitSubjectTaxonomy_def Let_def nth_append)
qed

lemma version_token:
  assumes "1 \<le> n"
  shows "subjectVersionPattern (CHR ''v'' # Itoa n)" "subjectTokenPattern (CHR ''v'' # Itoa n)"
proof -
  obtain d ds where f: "format_base 10 (nat n) = d # ds" by (cases "format_base 10 (nat n)") auto
  have "list_all is_digit (d # ds)" using format_digits [of "nat n"] f by simp
  moreover have "d \<noteq> CHR ''0''" using format_hd_not_zero [of "nat n"] assms f by simp
  moreover have "is_lower CHR ''v''" by code_simp
  ultimately show "subjectVersionPattern (CHR ''v'' # Itoa n)" "subjectTokenPattern (CHR ''v'' # Itoa n)"
    using assms f by (auto simp: Itoa_def subjectTokenPattern_def list_all_iff)
qed

lemma subjectEventPattern_not_Nil: "subjectEventPattern s \<Longrightarrow> s \<noteq> ''''"
  by (auto simp: subjectEventPattern_def)

lemma fnv32a_parts: "fnv32a h (s @ c # t) = fnv32a (fnv32a (fnv32a h s) [c]) t"
  by (simp add: fnv32a_def)

lemma ShardGroup_mod:
  assumes "1 < groupCount" "groupCount < 2 ^ 32"
  shows "ShardGroup k groupCount = Some (uint k mod groupCount)"
proof -
  have u: "uint (word_of_int groupCount :: 32 word) = groupCount"
    using assms by (simp add: uint_word_of_int)
  then have "(word_of_int groupCount :: 32 word) \<noteq> 0" using assms by auto
  then show ?thesis using assms u by (simp add: ShardGroup_def uint_mod Let_def)
qed

section \<open>Properties\<close>





text \<open>
  Property C22. The groups partition the subjects: with a group count between 2 and the largest
  \<open>uint32\<close>, every subject is kept by exactly one of the groups \<open>0, ..., groupCount - 1\<close>.
\<close>

theorem shard_groups_partition:
  assumes "1 < groupCount" and "groupCount < 2 ^ 32"
  shows "\<exists>!g. 0 \<le> g \<and> g < groupCount \<and> subjectBelongsToOtherShard subject groupCount g = Some False"
proof
  let ?g = "uint (js_ShardKey subject) mod groupCount"
  show "0 \<le> ?g \<and> ?g < groupCount \<and> subjectBelongsToOtherShard subject groupCount ?g = Some False"
    using assms by (simp add: subjectBelongsToOtherShard_def ShardGroup_mod)
  show "g = ?g" if "0 \<le> g \<and> g < groupCount \<and> subjectBelongsToOtherShard subject groupCount g = Some False" for g
    using that assms by (simp add: subjectBelongsToOtherShard_def ShardGroup_mod)
qed

theorem shard_groups_partition_witness:
  "\<exists>!g. 0 \<le> g \<and> g < 4 \<and>
     subjectBelongsToOtherShard ''marketdata.trade.v1.binance.BTCUSDT'' 4 g = Some False"
  by (rule shard_groups_partition) simp_all

end
