(* ===== verification/Delivery_Domain.thy ===== *)
theory Delivery_Domain
  imports Envelope
begin

text \<open>
  The delivery domain (\<open>internal/core/delivery/domain\<close>): subjects and their wire form (\<open>subject.go\<close>,
  \<open>snapshot_subject.go\<close>), the contract that an event must meet to be delivered (\<open>envelope_policy.go\<close>),
  the backpressure policies and priorities (\<open>backpressure_policy.go\<close>) and the subscriptions of a session
  (\<open>session.go\<close>). Go maps are association lists with distinct keys. \<open>strings.EqualFold\<close> against a
  lower-case ASCII word is equality after \<open>ToLower\<close>.
\<close>

section \<open>Subjects\<close>

record Subject =
  sub_StreamType :: string
  sub_Kind :: string
  sub_Venue :: string
  sub_Symbol :: string
  sub_Timeframe :: string

definition DefaultTimeframe :: string where
  "DefaultTimeframe = ''raw''"

definition NormalizeSymbol :: "string \<Rightarrow> string" where
  "NormalizeSymbol raw = CanonicalInstrument raw"

definition IsInstrumentSymbolEquivalent :: "string \<Rightarrow> string \<Rightarrow> bool" where
  "IsInstrumentSymbolEquivalent symbol instrument \<longleftrightarrow> NormalizeSymbol symbol = NormalizeSymbol instrument"

definition NewSubject :: "string \<Rightarrow> string \<Rightarrow> string \<Rightarrow> string \<Rightarrow> Subject result" where
  "NewSubject streamType venue symbol timeframe =
     (let streamType = ToLower (TrimSpace streamType);
          venue = ToLower (TrimSpace venue);
          symbol = NormalizeSymbol symbol;
          timeframe = ToLower (TrimSpace timeframe) in
      if streamType = '''' then Inl (New ValidationFailed ''subject stream_type must not be empty'')
      else if venue = '''' then Inl (New ValidationFailed ''subject venue must not be empty'')
      else if symbol = '''' then Inl (New ValidationFailed ''subject symbol must not be empty'')
      else
        let timeframe = (if timeframe = '''' then DefaultTimeframe else timeframe) in
        Inr \<lparr>sub_StreamType = streamType, sub_Kind = '''', sub_Venue = venue, sub_Symbol = symbol,
             sub_Timeframe = timeframe\<rparr>)"

definition NewSignalSubject :: "string \<Rightarrow> string \<Rightarrow> string \<Rightarrow> string \<Rightarrow> Subject result" where
  "NewSignalSubject kind venue symbol timeframe =
     (let kind = ToLower (TrimSpace kind) in
      if kind = '''' then Inl (New ValidationFailed ''subject signal kind must not be empty'')
      else
        let venue = ToLower (TrimSpace venue);
            symbol = NormalizeSymbol symbol;
            timeframe = ToLower (TrimSpace timeframe) in
        if venue = '''' then Inl (New ValidationFailed ''subject venue must not be empty'')
        else if symbol = '''' then Inl (New ValidationFailed ''subject symbol must not be empty'')
        else
          let timeframe = (if timeframe = '''' then DefaultTimeframe else timeframe) in
          Inr \<lparr>sub_StreamType = ''signal'', sub_Kind = kind, sub_Venue = venue, sub_Symbol = symbol,
               sub_Timeframe = timeframe\<rparr>)"

definition ParseSubject :: "string \<Rightarrow> Subject result" where
  "ParseSubject raw =
     (let parts = Split CHR ''/'' (TrimSpace raw) in
      if length parts = 5 \<and> ToLower (TrimSpace (parts ! 0)) = ''signal'' then
        NewSignalSubject (parts ! 1) (parts ! 2) (parts ! 3) (parts ! 4)
      else if length parts \<noteq> 4 then
        Inl (Newf ValidationFailed ''subject must have 4 segments or 5 segments, got %q'')
      else NewSubject (parts ! 0) (parts ! 1) (parts ! 2) (parts ! 3))"

definition IsSignal :: "Subject \<Rightarrow> bool" where
  "IsSignal s \<longleftrightarrow> ToLower (TrimSpace (sub_StreamType s)) = ''signal''"

definition subject_String :: "Subject \<Rightarrow> string" where
  "subject_String s =
     (if IsSignal s then
        let kind = ToLower (TrimSpace (sub_Kind s));
            kind = (if kind = '''' then ''unknown'' else kind)
        in ''signal'' @ ''/'' @ kind @ ''/'' @ sub_Venue s @ ''/'' @ sub_Symbol s @ ''/'' @ sub_Timeframe s
      else sub_StreamType s @ ''/'' @ sub_Venue s @ ''/'' @ sub_Symbol s @ ''/'' @ sub_Timeframe s)"

definition delivery_SubjectFromEnvelope :: "Envelope \<Rightarrow> string \<Rightarrow> Subject result" where
  "delivery_SubjectFromEnvelope env timeframe =
     (let eventType = ToLower (TrimSpace (env_Type env)) in
      if eventType = ''signal.composite'' \<or> eventType = ''signal.event'' then
        let rawKind = (if length (env_Meta env) > 0
                       then ToLower (TrimSpace (meta_get (env_Meta env) ''kind'')) else '''');
            kind = (if rawKind \<noteq> '''' then rawKind else ''unknown'')
        in NewSignalSubject kind (env_Venue env) (env_Instrument env) timeframe
      else NewSubject (env_Type env) (env_Venue env) (env_Instrument env) timeframe)"

definition TimeframeFromEnvelopeMeta :: "Envelope \<Rightarrow> string \<Rightarrow> string" where
  "TimeframeFromEnvelopeMeta env fallback =
     (if length (env_Meta env) > 0 then
        let tf = TrimSpace (meta_get (env_Meta env) ''timeframe'') in if tf \<noteq> '''' then tf else fallback
      else fallback)"

definition SnapshotSubject :: "string \<Rightarrow> string \<Rightarrow> string \<Rightarrow> Subject result" where
  "SnapshotSubject venue instrument timeframe = NewSubject ''aggregation.snapshot'' venue instrument timeframe"

section \<open>The delivery contract\<close>

record deliveryContract =
  dc_version :: int
  dc_ownerBC :: string
  dc_producerBC :: string
  dc_schemaAuthority :: string

text \<open>A contract with its version, owner, producer and schema authority.\<close>

abbreviation mk_contract :: "int \<Rightarrow> string \<Rightarrow> string \<Rightarrow> string \<Rightarrow> deliveryContract" where
  "mk_contract v own pro auth \<equiv>
     \<lparr>dc_version = v, dc_ownerBC = own, dc_producerBC = pro, dc_schemaAuthority = auth\<rparr>"

definition deliveryContracts :: "(string \<times> deliveryContract) list" where
  "deliveryContracts =
     [(''marketdata.trade'', mk_contract 1 ''marketdata'' ''marketdata'' ''marketdata''),
      (''marketdata.bookdelta'', mk_contract 1 ''marketdata'' ''marketdata'' ''marketdata''),
      (''marketdata.markprice'', mk_contract 1 ''marketdata'' ''marketdata'' ''marketdata''),
      (''marketdata.open_interest'', mk_contract 1 ''marketdata'' ''marketdata'' ''marketdata''),
      (''marketdata.liquidation'', mk_contract 1 ''marketdata'' ''marketdata'' ''marketdata''),
      (''insights.crossvenue.trade_snapshot'', mk_contract 1 ''insights'' ''aggregation'' ''aggregation''),
      (''insights.crossvenue.spread_signal'', mk_contract 1 ''insights'' ''aggregation'' ''aggregation''),
      (''evidence.microstructure_evidence'', mk_contract 1 ''evidence'' ''evidence'' ''evidence''),
      (''liquidity.evidence'', mk_contract 1 ''evidence'' ''evidence'' ''evidence''),
      (''evidence.regime_evidence'', mk_contract 1 ''evidence'' ''evidence'' ''evidence''),
      (''insights.microstructure_evidence'', mk_contract 1 ''evidence'' ''evidence'' ''evidence''),
      (''insights.regime_evidence'', mk_contract 1 ''evidence'' ''evidence'' ''evidence''),
      (''signal.composite'', mk_contract 1 ''signal'' ''signal'' ''signal''),
      (''signal.event'', mk_contract 1 ''signal'' ''signal'' ''signal''),
      (''strategy.intent'', mk_contract 1 ''strategy'' ''strategy'' ''strategy''),
      (''execution.event'', mk_contract 1 ''execution'' ''execution'' ''execution''),
      (''portfolio.state'', mk_contract 1 ''portfolio'' ''portfolio'' ''portfolio''),
      (''aggregation.snapshot'', mk_contract 1 ''aggregation'' ''aggregation'' ''aggregation''),
      (''aggregation.orderbook_inconsistency'', mk_contract 1 ''aggregation'' ''aggregation'' ''aggregation''),
      (''aggregation.candle'', mk_contract 1 ''aggregation'' ''aggregation'' ''aggregation''),
      (''aggregation.stats'', mk_contract 1 ''aggregation'' ''aggregation'' ''aggregation''),
      (''aggregation.tape'', mk_contract 1 ''aggregation'' ''aggregation'' ''aggregation''),
      (''aggregation.oi'', mk_contract 1 ''aggregation'' ''aggregation'' ''aggregation''),
      (''aggregation.delta_volume'', mk_contract 1 ''aggregation'' ''aggregation'' ''aggregation''),
      (''aggregation.cvd'', mk_contract 1 ''aggregation'' ''aggregation'' ''aggregation''),
      (''aggregation.bar_stats'', mk_contract 1 ''aggregation'' ''aggregation'' ''aggregation''),
      (''insights.heatmap_snapshot'', mk_contract 1 ''insights'' ''aggregation'' ''aggregation''),
      (''insights.heatmap_delta'', mk_contract 1 ''insights'' ''aggregation'' ''aggregation''),
      (''insights.volume_profile_snapshot'', mk_contract 1 ''insights'' ''aggregation'' ''aggregation''),
      (''insights.volume_profile_delta'', mk_contract 1 ''insights'' ''aggregation'' ''aggregation''),
      (''insights.session_volume_profile'', mk_contract 1 ''insights'' ''aggregation'' ''aggregation''),
      (''insights.tpo_profile'', mk_contract 1 ''insights'' ''aggregation'' ''aggregation''),
      (''insights.fused_volume_profile_snapshot'', mk_contract 1 ''insights'' ''aggregation'' ''aggregation''),
      (''insights.fused_heatmap_snapshot'', mk_contract 1 ''insights'' ''aggregation'' ''aggregation'')]"

definition ValidateEnvelopeForDelivery :: "Envelope \<Rightarrow> problem option" where
  "ValidateEnvelopeForDelivery env =
     (let eventType = ToLower (TrimSpace (env_Type env)) in
      case map_of deliveryContracts eventType of
        None \<Rightarrow> Some (Newf ValidationFailed ''delivery stream type %q is not allowed'')
      | Some contract \<Rightarrow>
          if env_Version env \<noteq> dc_version contract then
            Some (Newf ValidationFailed ''delivery stream version mismatch for %q: got v%d want v%d'')
          else if dc_ownerBC contract \<noteq> dc_producerBC contract then
            if TrimSpace (dc_schemaAuthority contract) = '''' then
              Some (Newf ValidationFailed ''delivery governance missing schema authority for %q'')
            else if dc_schemaAuthority contract \<noteq> dc_ownerBC contract \<and>
                    dc_schemaAuthority contract \<noteq> dc_producerBC contract then
              Some (Newf ValidationFailed ''delivery governance invalid schema authority for %q'')
            else None
          else None)"

section \<open>Backpressure policies\<close>

definition NormalizeBackpressurePolicy :: "string \<Rightarrow> string" where
  "NormalizeBackpressurePolicy raw =
     (let p = ToLower (TrimSpace raw) in
      if p \<in> set [''drop_newest'', ''drop_oldest'', ''priority_drop''] then p else ''drop_newest'')"

definition ShouldDropOnBackpressure :: "string \<Rightarrow> int \<Rightarrow> int \<Rightarrow> bool" where
  "ShouldDropOnBackpressure policy queueLen queueCap =
     (if queueCap \<le> 0 then False
      else if queueLen < queueCap then False
      else let p = NormalizeBackpressurePolicy policy in
        if p = ''drop_newest'' then True
        else if p = ''drop_oldest'' then False
        else if p = ''priority_drop'' then False
        else True)"

definition DefaultBackpressurePriorities :: "(string \<times> int) list" where
  "DefaultBackpressurePriorities =
     [(''marketdata.trade'', 100),
      (''aggregation.candle'', 90),
      (''aggregation.stats'', 80),
      (''aggregation.bar_stats'', 78),
      (''aggregation.delta_volume'', 76),
      (''aggregation.cvd'', 76),
      (''aggregation.oi'', 72),
      (''marketdata.bookdelta'', 20),
      (''insights.heatmap_snapshot'', 55),
      (''marketdata.markprice'', 50),
      (''marketdata.open_interest'', 48),
      (''marketdata.liquidation'', 40),
      (''insights.crossvenue.trade_snapshot'', 30),
      (''insights.crossvenue.spread_signal'', 20),
      (''evidence.microstructure_evidence'', 25),
      (''insights.microstructure_evidence'', 25),
      (''liquidity.evidence'', 25),
      (''signal.event'', 70),
      (''signal.composite'', 65),
      (''strategy.intent'', 68),
      (''execution.event'', 66),
      (''portfolio.state'', 64),
      (''insights.volume_profile_snapshot'', 20),
      (''insights.volume_profile_delta'', 20),
      (''insights.heatmap_delta'', 55),
      (''insights.session_volume_profile'', 18),
      (''insights.tpo_profile'', 18),
      (''insights.fused_volume_profile_snapshot'', 15),
      (''insights.fused_heatmap_snapshot'', 15)]"

section \<open>Sessions\<close>

text \<open>The filter of a subscription is a spread threshold that no delivery code reads.\<close>

record Subscription =
  sb_Subject :: Subject
  sb_MinSpread :: f64

record Session =
  ses_id :: string
  ses_subscriptions :: "(Subject \<times> Subscription) list"

definition NewSession :: "string \<Rightarrow> Session" where
  "NewSession newID = \<lparr>ses_id = newID, ses_subscriptions = []\<rparr>"

definition ses_Subscribe :: "Subject \<Rightarrow> f64 \<Rightarrow> Session \<Rightarrow> Session" where
  "ses_Subscribe subject minSpread s =
     s\<lparr>ses_subscriptions :=
        AList.update subject \<lparr>sb_Subject = subject, sb_MinSpread = minSpread\<rparr> (ses_subscriptions s)\<rparr>"

definition ses_Unsubscribe :: "Subject \<Rightarrow> Session \<Rightarrow> Session \<times> problem option" where
  "ses_Unsubscribe subject s =
     (case map_of (ses_subscriptions s) subject of
        None \<Rightarrow> (s, Some (Newf NotFound ''not subscribed to subject %q''))
      | Some _ \<Rightarrow> (s\<lparr>ses_subscriptions := AList.delete subject (ses_subscriptions s)\<rparr>, None))"

definition ses_Subscriptions :: "Session \<Rightarrow> Subscription list" where
  "ses_Subscriptions s = map snd (ses_subscriptions s)"

definition ses_IsSubscribed :: "Subject \<Rightarrow> Session \<Rightarrow> bool" where
  "ses_IsSubscribed subject s = (case map_of (ses_subscriptions s) subject of None \<Rightarrow> False | Some _ \<Rightarrow> True)"

definition SignalSubscriptionCount :: "Session \<Rightarrow> nat" where
  "SignalSubscriptionCount s =
     length (filter (\<lambda>sub. IsSignal (sb_Subject sub)) (map snd (ses_subscriptions s)))"

section \<open>Specification\<close>

text \<open>What a second parse makes of the wire form of a parsed subject.\<close>

definition reparsed :: "Subject \<Rightarrow> Subject" where
  "reparsed s = s\<lparr>sub_Kind := (if IsSignal s \<and> sub_Kind s = '''' then ''unknown'' else sub_Kind s),
     sub_Symbol := TrimSpace (sub_Symbol s)\<rparr>"

text \<open>The subjects that parsing produces.\<close>

definition canonical_subject :: "Subject \<Rightarrow> bool" where
  "canonical_subject s \<longleftrightarrow>
     (\<forall>t \<in> {sub_StreamType s, sub_Venue s, sub_Timeframe s}.
        t \<noteq> '''' \<and> ToLower (TrimSpace t) = t \<and> CHR ''/'' \<notin> set t) \<and>
     ToLower (TrimSpace (sub_Kind s)) = sub_Kind s \<and> CHR ''/'' \<notin> set (sub_Kind s) \<and>
     (\<not> IsSignal s \<longrightarrow> sub_Kind s = '''') \<and> (\<exists>x. sub_Symbol s = CanonicalInstrument x) \<and> sub_Symbol s \<noteq> ''''"

section \<open>Lemmas\<close>

lemma TrimSpace_id_iff: "TrimSpace s = s \<longleftrightarrow> s = [] \<or> \<not> is_space (hd s) \<and> \<not> is_space (last s)"
proof (cases s)
  case (Cons c cs)
  have drop: "dropWhile is_space t = t \<longleftrightarrow> t = [] \<or> \<not> is_space (hd t)" for t
    by (cases t) (auto, metis impossible_Cons length_dropWhile_le)
  show ?thesis
  proof (cases "is_space c")
    case True
    have "length (TrimSpace s) \<le> length cs"
      using Cons True length_dropWhile_le [of is_space "rev (dropWhile is_space cs)"]
        length_dropWhile_le [of is_space cs] by (simp add: TrimSpace_def)
    then have "TrimSpace s \<noteq> s" using Cons by (metis impossible_Cons)
    then show ?thesis using Cons True by simp
  next
    case False
    then have "TrimSpace s = s \<longleftrightarrow> dropWhile is_space (rev s) = rev s"
      using Cons by (auto simp: TrimSpace_def rev_swap)
    also have "\<dots> \<longleftrightarrow> \<not> is_space (last s)" using Cons drop [of "rev s"] by (simp add: hd_rev del: rev.simps)
    finally show ?thesis using Cons False by simp
  qed
qed simp

lemma slash_to_lower [simp]: "to_lower c = CHR ''/'' \<longleftrightarrow> c = CHR ''/''"
proof -
  have "(of_char (to_lower c) :: nat) = 47 \<longleftrightarrow> (of_char c :: nat) = 47"
    by (auto simp: of_char_to_lower is_upper_def)
  moreover have "(of_char CHR ''/'' :: nat) = 47" by simp
  ultimately show ?thesis by (metis of_char_eq_iff)
qed

lemma slash_free: "CHR ''/'' \<notin> set t \<Longrightarrow> CHR ''/'' \<notin> set (ToLower (TrimSpace t))"
  using set_TrimSpace [of t] by (auto simp: ToLower_def) (metis slash_to_lower subsetD)

lemma slash_free_symbol: "CHR ''/'' \<notin> set (NormalizeSymbol t)"
proof -
  have "CHR ''/'' \<in> set separator_chars" by code_simp
  then show ?thesis using set_CanonicalInstrument by (auto simp: NormalizeSymbol_def)
qed

text \<open>The wire form of trimmed segments splits back into them.\<close>

lemma split_segments:
  assumes "ts \<noteq> []" "\<forall>t \<in> set ts. CHR ''/'' \<notin> set t"
    and "hd ts \<noteq> ''''" "TrimSpace (hd ts) = hd ts" "last ts \<noteq> ''''" "TrimSpace (last ts) = last ts"
  shows "Split CHR ''/'' (TrimSpace (Join ts ''/'')) = ts"
proof -
  have hd: "hd (Join ts ''/'') = hd (hd ts)" "Join ts ''/'' \<noteq> ''''"
    using assms(1,3) by (cases ts; cases "tl ts"; simp)+
  have "last (Join ts ''/'') = last (last ts)"
    using assms(1,5)
  proof (induction ts)
    case (Cons t ts)
    then show ?case by (cases ts) (auto simp: Join_Cons)
  qed simp
  then have "TrimSpace (Join ts ''/'') = Join ts ''/''"
    using assms hd by (simp add: TrimSpace_id_iff)
  then show ?thesis using assms(1,2) by simp
qed

lemma lower_trim: "ToLower (TrimSpace (ToLower (TrimSpace t))) = ToLower (TrimSpace t)"
  by (simp add: TrimSpace_ToLower)

lemma raw_timeframe: "ToLower (TrimSpace DefaultTimeframe) = DefaultTimeframe" "DefaultTimeframe \<noteq> ''''"
  "CHR ''/'' \<notin> set DefaultTimeframe"
  by code_simp+

lemma NewSubject_canonical:
  assumes "NewSubject a b c d = Inr s" "\<forall>t \<in> {a, b, d}. CHR ''/'' \<notin> set t"
  shows "canonical_subject s"
  using assms raw_timeframe by (auto simp: NewSubject_def canonical_subject_def NormalizeSymbol_def Let_def lower_trim
      slash_free split: if_splits)

lemma NewSignalSubject_canonical:
  assumes "NewSignalSubject k b c d = Inr s" "\<forall>t \<in> {k, b, d}. CHR ''/'' \<notin> set t"
  shows "canonical_subject s \<and> IsSignal s \<and> sub_Kind s \<noteq> ''''"
proof -
  have "ToLower (TrimSpace ''signal'') = ''signal''" "CHR ''/'' \<notin> set ''signal''" by code_simp+
  then show ?thesis
    using assms raw_timeframe by (auto simp: NewSignalSubject_def canonical_subject_def IsSignal_def
        NormalizeSymbol_def Let_def lower_trim slash_free split: if_splits)
qed

lemma ParseSubject_canonical: "ParseSubject raw = Inr s \<Longrightarrow> canonical_subject s"
proof -
  assume p: "ParseSubject raw = Inr s"
  have "CHR ''/'' \<notin> set (Split CHR ''/'' (TrimSpace raw) ! i)" if "i < length (Split CHR ''/'' (TrimSpace raw))" for i
    using that Split_tokens nth_mem by metis
  with p show ?thesis
    using NewSubject_canonical NewSignalSubject_canonical
    by (fastforce simp: ParseSubject_def Let_def split: if_splits)
qed

lemma trimmed: "ToLower (TrimSpace t) = t \<Longrightarrow> TrimSpace t = t"
  by (metis TrimSpace_ToLower TrimSpace_idem)

lemma canonical_trimmed:
  "canonical_subject s \<Longrightarrow>
   TrimSpace (sub_StreamType s) = sub_StreamType s \<and> TrimSpace (sub_Timeframe s) = sub_Timeframe s"
  using trimmed [of "sub_StreamType s"] trimmed [of "sub_Timeframe s"] by (simp add: canonical_subject_def)

lemma NormalizeSymbol_canonical: "canonical_subject s \<Longrightarrow> NormalizeSymbol (sub_Symbol s) = TrimSpace (sub_Symbol s)"
  by (auto simp: canonical_subject_def NormalizeSymbol_def CanonicalInstrument_twice)

lemma slash_free_canonical: "canonical_subject s \<Longrightarrow> CHR ''/'' \<notin> set (sub_Symbol s)"
  using slash_free_symbol by (auto simp: canonical_subject_def NormalizeSymbol_def)

lemma reparse:
  assumes c: "canonical_subject s"
  shows "ParseSubject (subject_String s) =
    (if TrimSpace (sub_Symbol s) = '''' then Inl (New ValidationFailed ''subject symbol must not be empty'')
     else Inr (reparsed s))"
proof (cases "IsSignal s")
  case True
  define k where "k = (if sub_Kind s = '''' then ''unknown'' else sub_Kind s)"
  have lit: "ToLower (TrimSpace ''unknown'') = ''unknown''" "CHR ''/'' \<notin> set ''unknown''"
    "ToLower (TrimSpace ''signal'') = ''signal''" "CHR ''/'' \<notin> set ''signal''" by code_simp+
  have st: "sub_StreamType s = ''signal''" using True c by (simp add: IsSignal_def canonical_subject_def)
  have k: "ToLower (TrimSpace k) = k" "k \<noteq> ''''" "CHR ''/'' \<notin> set k"
    using c lit by (auto simp: k_def canonical_subject_def)
  let ?ts = "[''signal'', k, sub_Venue s, sub_Symbol s, sub_Timeframe s]"
  have "subject_String s = Join ?ts ''/''"
    using True c by (simp add: subject_String_def k_def canonical_subject_def Let_def)
  moreover have "Split CHR ''/'' (TrimSpace (Join ?ts ''/'')) = ?ts"
    using c k lit trimmed [OF lit(3)] slash_free_canonical [OF c] canonical_trimmed [OF c]
    by (intro split_segments) (auto simp: canonical_subject_def)
  ultimately have "ParseSubject (subject_String s) = NewSignalSubject k (sub_Venue s) (sub_Symbol s) (sub_Timeframe s)"
    using lit by (simp add: ParseSubject_def)
  moreover have "NewSignalSubject k (sub_Venue s) (sub_Symbol s) (sub_Timeframe s) =
      (if TrimSpace (sub_Symbol s) = '''' then Inl (New ValidationFailed ''subject symbol must not be empty'')
       else Inr \<lparr>sub_StreamType = ''signal'', sub_Kind = k, sub_Venue = sub_Venue s,
              sub_Symbol = TrimSpace (sub_Symbol s), sub_Timeframe = sub_Timeframe s\<rparr>)"
    using c k NormalizeSymbol_canonical [OF c] by (simp add: NewSignalSubject_def canonical_subject_def Let_def)
  moreover have "reparsed s = \<lparr>sub_StreamType = ''signal'', sub_Kind = k, sub_Venue = sub_Venue s,
      sub_Symbol = TrimSpace (sub_Symbol s), sub_Timeframe = sub_Timeframe s\<rparr>"
    using st True by (simp add: reparsed_def k_def)
  ultimately show ?thesis by simp
next
  case False
  let ?ts = "[sub_StreamType s, sub_Venue s, sub_Symbol s, sub_Timeframe s]"
  have "subject_String s = Join ?ts ''/''" using False by (simp add: subject_String_def)
  moreover have "Split CHR ''/'' (TrimSpace (Join ?ts ''/'')) = ?ts"
    using c slash_free_canonical [OF c] canonical_trimmed [OF c]
    by (intro split_segments) (auto simp: canonical_subject_def)
  ultimately have "ParseSubject (subject_String s) =
      NewSubject (sub_StreamType s) (sub_Venue s) (sub_Symbol s) (sub_Timeframe s)"
    by (simp add: ParseSubject_def)
  moreover have "NewSubject (sub_StreamType s) (sub_Venue s) (sub_Symbol s) (sub_Timeframe s) =
      (if TrimSpace (sub_Symbol s) = '''' then Inl (New ValidationFailed ''subject symbol must not be empty'')
       else Inr (reparsed s))"
    using c False NormalizeSymbol_canonical [OF c]
    by (simp add: NewSubject_def canonical_subject_def reparsed_def Let_def)
  ultimately show ?thesis by simp
qed

section \<open>Properties\<close>



text \<open>
  Property C24. The contract table admits every event type it lists at its version and nothing else:
  the governance branches of the check are never taken, since every schema authority in the table is
  the owner or the producer of its contract.
\<close>

theorem delivery_contract_check:
  "ValidateEnvelopeForDelivery env = None \<longleftrightarrow>
     (\<exists>c. map_of deliveryContracts (ToLower (TrimSpace (env_Type env))) = Some c \<and> env_Version env = dc_version c)"
proof -
  have table: "list_all (\<lambda>(_, c). TrimSpace (dc_schemaAuthority c) \<noteq> '''' \<and>
      (dc_schemaAuthority c = dc_ownerBC c \<or> dc_schemaAuthority c = dc_producerBC c)) deliveryContracts"
    by code_simp
  show ?thesis
  proof (cases "map_of deliveryContracts (ToLower (TrimSpace (env_Type env)))")
    case (Some c)
    then have "(ToLower (TrimSpace (env_Type env)), c) \<in> set deliveryContracts" by (rule map_of_SomeD)
    with table have "TrimSpace (dc_schemaAuthority c) \<noteq> ''''"
      "dc_schemaAuthority c = dc_ownerBC c \<or> dc_schemaAuthority c = dc_producerBC c"
      by (auto simp: list_all_iff)
    with Some show ?thesis by (auto simp: ValidateEnvelopeForDelivery_def Let_def)
  qed (simp add: ValidateEnvelopeForDelivery_def)
qed

end
