(* ===== verification/Bounded_Map.thy ===== *)
theory Bounded_Map
  imports Go_Prelude "HOL-Library.AList" "HOL-Library.Multiset"
begin

text \<open>
  The LRU map with time-to-live of \<open>internal/shared/ds/boundedmap.go\<close>.

  The Go map \<open>items\<close> is an association list with distinct keys. Its list order stands for the order in
  which the runtime happens to range over the map in \<open>sweepLocked\<close>; no other operation depends on it,
  and \<open>sweepLocked_perm\<close> shows that what remains does not either. The doubly linked list \<open>lru\<close> is the
  list of its keys, front first; an element is identified by its key. Times are nanoseconds and the
  zero time is \<open>0\<close>; each operation takes the value that \<open>clock.Now\<close> returns to it. An operation
  holds the lock for its whole body, so it is one step of the model; it returns, next to its result, the
  calls it makes to \<open>onEvict\<close> after the lock is released.
\<close>

section \<open>Definitions\<close>

record 'v boundedEntry =
  be_value :: 'v
  be_expiresAt :: int

datatype reason = EvictReasonSize | EvictReasonTTL | EvictReasonUnknown

type_synonym ('k, 'v) evictionEvent = "'k \<times> 'v \<times> reason"

record ('k, 'v) BoundedMap =
  bm_maxSize :: int
  bm_ttl :: int
  bm_items :: "('k \<times> 'v boundedEntry) list"
  bm_lru :: "'k list"
  bm_onEvict :: bool
  bm_opCount :: "64 word"
  bm_sweepEveryOps :: "64 word"
  bm_sweepMinInterval :: int
  bm_lastSweep :: int

definition NewBoundedMap :: "int \<Rightarrow> int \<Rightarrow> int \<Rightarrow> ('k, 'v) BoundedMap" where
  "NewBoundedMap maxSize ttl now =
     \<lparr>bm_maxSize = (if maxSize \<le> 0 then 1 else maxSize), bm_ttl = ttl, bm_items = [], bm_lru = [],
      bm_onEvict = False, bm_opCount = 0, bm_sweepEveryOps = 0, bm_sweepMinInterval = 0, bm_lastSweep = now\<rparr>"

definition SetOnEvict :: "bool \<Rightarrow> ('k, 'v) BoundedMap \<Rightarrow> ('k, 'v) BoundedMap" where
  "SetOnEvict fn m = m\<lparr>bm_onEvict := fn\<rparr>"

definition SetSweepEveryOps :: "64 word \<Rightarrow> ('k, 'v) BoundedMap \<Rightarrow> ('k, 'v) BoundedMap" where
  "SetSweepEveryOps n m = m\<lparr>bm_sweepEveryOps := n\<rparr>"

definition SetSweepMinInterval :: "int \<Rightarrow> ('k, 'v) BoundedMap \<Rightarrow> ('k, 'v) BoundedMap" where
  "SetSweepMinInterval d m = m\<lparr>bm_sweepMinInterval := d\<rparr>"

definition nextExpiryAt :: "('k, 'v) BoundedMap \<Rightarrow> int \<Rightarrow> int" where
  "nextExpiryAt m now = (if bm_ttl m \<le> 0 then 0 else now + bm_ttl m)"

definition isExpiredAt :: "('k, 'v) BoundedMap \<Rightarrow> 'v boundedEntry \<Rightarrow> int \<Rightarrow> bool" where
  "isExpiredAt m entry now \<longleftrightarrow>
     (if bm_ttl m \<le> 0 then False else be_expiresAt entry \<noteq> 0 \<and> \<not> be_expiresAt entry > now)"

definition evictLocked ::
  "('k, 'v) BoundedMap \<Rightarrow> 'k \<Rightarrow> 'v boundedEntry \<Rightarrow> reason \<Rightarrow>
   ('k, 'v) BoundedMap \<times> ('k, 'v) evictionEvent list" where
  "evictLocked m key entry reason =
     (m\<lparr>bm_items := AList.delete key (bm_items m), bm_lru := remove1 key (bm_lru m)\<rparr>,
      if \<not> bm_onEvict m then [] else [(key, be_value entry, reason)])"

text \<open>The loop of \<open>sweepLocked\<close> over the entries that the map has when the loop starts.\<close>

fun sweep_loop ::
  "int \<Rightarrow> ('k \<times> 'v boundedEntry) list \<Rightarrow> ('k, 'v) BoundedMap \<times> int \<times> ('k, 'v) evictionEvent list \<Rightarrow>
   ('k, 'v) BoundedMap \<times> int \<times> ('k, 'v) evictionEvent list" where
  "sweep_loop now [] s = s"
| "sweep_loop now ((key, entry) # es) (m, removed, evicted) =
     (if isExpiredAt m entry now then
        (case evictLocked m key entry EvictReasonTTL of
           (m', ev) \<Rightarrow> sweep_loop now es (m', removed + 1, evicted @ ev))
      else sweep_loop now es (m, removed, evicted))"

definition sweepLocked ::
  "('k, 'v) BoundedMap \<Rightarrow> int \<Rightarrow> ('k, 'v) BoundedMap \<times> int \<times> ('k, 'v) evictionEvent list" where
  "sweepLocked m now =
     (if bm_ttl m \<le> 0 \<or> length (bm_items m) = 0 then (m, 0, [])
      else sweep_loop now (bm_items m) (m, 0, []))"

definition maybeSweepLocked ::
  "('k, 'v) BoundedMap \<Rightarrow> int \<Rightarrow> ('k, 'v) BoundedMap \<times> ('k, 'v) evictionEvent list" where
  "maybeSweepLocked m now =
     (if bm_ttl m \<le> 0 then (m, [])
      else
        let dueByOps = (bm_sweepEveryOps m > 0 \<and> bm_opCount m mod bm_sweepEveryOps m = 0);
            dueByInterval =
              (bm_sweepMinInterval m > 0 \<and> time_sub now (bm_lastSweep m) \<ge> bm_sweepMinInterval m) in
        if \<not> dueByOps \<and> \<not> dueByInterval then (m, [])
        else case sweepLocked m now of (m', _, evicted) \<Rightarrow> (m'\<lparr>bm_lastSweep := now\<rparr>, evicted))"

definition MoveToFront :: "'k \<Rightarrow> 'k list \<Rightarrow> 'k list" where
  "MoveToFront key lru = key # remove1 key lru"

definition Get ::
  "int \<Rightarrow> 'k \<Rightarrow> ('k, 'v) BoundedMap \<Rightarrow> ('k, 'v) BoundedMap \<times> 'v option \<times> ('k, 'v) evictionEvent list" where
  "Get now key m =
     (let m = m\<lparr>bm_opCount := bm_opCount m + 1\<rparr> in
      case map_of (bm_items m) key of
        None \<Rightarrow> (case maybeSweepLocked m now of (m, evicted) \<Rightarrow> (m, None, evicted))
      | Some entry \<Rightarrow>
          if isExpiredAt m entry now then
            (case evictLocked m key entry EvictReasonTTL of (m, ev) \<Rightarrow>
               (case maybeSweepLocked m now of (m, evicted) \<Rightarrow> (m, None, ev @ evicted)))
          else
            let m = m\<lparr>bm_lru := MoveToFront key (bm_lru m)\<rparr> in
            (case maybeSweepLocked m now of (m, evicted) \<Rightarrow> (m, Some (be_value entry), evicted)))"

definition evict_tail ::
  "('k, 'v) BoundedMap \<Rightarrow> ('k, 'v) BoundedMap \<times> ('k, 'v) evictionEvent list" where
  "evict_tail m =
     (if int (length (bm_items m)) \<ge> bm_maxSize m \<and> bm_lru m \<noteq> [] then
        (case map_of (bm_items m) (last (bm_lru m)) of
           None \<Rightarrow> (m, [])
         | Some old \<Rightarrow> evictLocked m (last (bm_lru m)) old EvictReasonSize)
      else (m, []))"

definition Put ::
  "int \<Rightarrow> 'k \<Rightarrow> 'v \<Rightarrow> ('k, 'v) BoundedMap \<Rightarrow> ('k, 'v) BoundedMap \<times> ('k, 'v) evictionEvent list" where
  "Put now key v m =
     (let m = m\<lparr>bm_opCount := bm_opCount m + 1\<rparr> in
      case map_of (bm_items m) key of
        Some _ \<Rightarrow>
          maybeSweepLocked
            (m\<lparr>bm_items := AList.update key \<lparr>be_value = v, be_expiresAt = nextExpiryAt m now\<rparr> (bm_items m),
               bm_lru := MoveToFront key (bm_lru m)\<rparr>) now
      | None \<Rightarrow>
          (case evict_tail m of (m, ev) \<Rightarrow>
             (case maybeSweepLocked
                 (m\<lparr>bm_items := AList.update key \<lparr>be_value = v, be_expiresAt = nextExpiryAt m now\<rparr>
                      (bm_items m),
                    bm_lru := key # bm_lru m\<rparr>) now of
                (m, evicted) \<Rightarrow> (m, ev @ evicted))))"

definition Delete ::
  "int \<Rightarrow> 'k \<Rightarrow> ('k, 'v) BoundedMap \<Rightarrow> ('k, 'v) BoundedMap \<times> ('k, 'v) evictionEvent list" where
  "Delete now key m =
     (let m = m\<lparr>bm_opCount := bm_opCount m + 1\<rparr> in
      case (case map_of (bm_items m) key of
              Some entry \<Rightarrow> evictLocked m key entry EvictReasonUnknown
            | None \<Rightarrow> (m, [])) of
        (m, ev) \<Rightarrow> (case maybeSweepLocked m now of (m, evicted) \<Rightarrow> (m, ev @ evicted)))"

definition Len :: "('k, 'v) BoundedMap \<Rightarrow> int" where
  "Len m = int (length (bm_items m))"

definition Sweep ::
  "int \<Rightarrow> ('k, 'v) BoundedMap \<Rightarrow> ('k, 'v) BoundedMap \<times> int \<times> ('k, 'v) evictionEvent list" where
  "Sweep now m =
     (case sweepLocked m now of (m, removed, evicted) \<Rightarrow> (m\<lparr>bm_lastSweep := now\<rparr>, removed, evicted))"

section \<open>Specification\<close>

text \<open>The representation invariant, and the value that a reader at a time sees under a key.\<close>

definition bm_inv :: "('k, 'v) BoundedMap \<Rightarrow> bool" where
  "bm_inv m \<longleftrightarrow>
     distinct (map fst (bm_items m)) \<and> distinct (bm_lru m) \<and> set (bm_lru m) = fst ` set (bm_items m) \<and>
     1 \<le> bm_maxSize m \<and> int (length (bm_items m)) \<le> bm_maxSize m"

definition live :: "('k, 'v) BoundedMap \<Rightarrow> int \<Rightarrow> 'k \<Rightarrow> 'v option" where
  "live m now key =
     (case map_of (bm_items m) key of
        None \<Rightarrow> None
      | Some entry \<Rightarrow> if isExpiredAt m entry now then None else Some (be_value entry))"

text \<open>What an eviction removes: the entries and the list elements of a set of keys.\<close>

definition drop_keys :: "'k set \<Rightarrow> ('k, 'v) BoundedMap \<Rightarrow> ('k, 'v) BoundedMap" where
  "drop_keys K m =
     m\<lparr>bm_items := filter (\<lambda>p. fst p \<notin> K) (bm_items m), bm_lru := filter (\<lambda>k. k \<notin> K) (bm_lru m)\<rparr>"

definition expired :: "('k, 'v) BoundedMap \<Rightarrow> int \<Rightarrow> 'k \<Rightarrow> bool" where
  "expired m now key =
     (case map_of (bm_items m) key of None \<Rightarrow> False | Some entry \<Rightarrow> isExpiredAt m entry now)"

text \<open>What an insertion does once there is room.\<close>

definition store :: "int \<Rightarrow> 'k \<Rightarrow> 'v \<Rightarrow> ('k, 'v) BoundedMap \<Rightarrow> ('k, 'v) BoundedMap" where
  "store now k v m =
     m\<lparr>bm_items := AList.update k \<lparr>be_value = v, be_expiresAt = nextExpiryAt m now\<rparr> (bm_items m),
       bm_lru := MoveToFront k (bm_lru m)\<rparr>"

text \<open>The keys of a sequence of insertions, most recent first.\<close>

fun recency :: "'k list \<Rightarrow> 'k list \<Rightarrow> 'k list" where
  "recency acc [] = acc"
| "recency acc (k # ks) = recency (MoveToFront k acc) ks"

fun put_all :: "int \<Rightarrow> ('k \<times> 'v) list \<Rightarrow> ('k, 'v) BoundedMap \<Rightarrow> ('k, 'v) BoundedMap" where
  "put_all now [] m = m"
| "put_all now ((k, v) # kvs) m = put_all now kvs (fst (Put now k v m))"

text \<open>Every state that the exported operations can produce.\<close>

inductive bm_reach :: "('k, 'v) BoundedMap \<Rightarrow> bool" where
  new: "bm_reach (NewBoundedMap n d now)"
| on_evict: "bm_reach m \<Longrightarrow> bm_reach (SetOnEvict fn m)"
| every_ops: "bm_reach m \<Longrightarrow> bm_reach (SetSweepEveryOps c m)"
| min_interval: "bm_reach m \<Longrightarrow> bm_reach (SetSweepMinInterval d m)"
| get: "bm_reach m \<Longrightarrow> bm_reach (fst (Get now k m))"
| put: "bm_reach m \<Longrightarrow> bm_reach (fst (Put now k v m))"
| delete: "bm_reach m \<Longrightarrow> bm_reach (fst (Delete now k m))"
| sweep: "bm_reach m \<Longrightarrow> bm_reach (fst (Sweep now m))"

section \<open>The interface that the users of the map rely on\<close>

text \<open>\<open>ok\<close> are the keys that the cache stores.\<close>

locale cache =
  fixes ok :: "'k \<Rightarrow> bool"
    and get :: "int \<Rightarrow> 'k \<Rightarrow> 'm \<Rightarrow> 'm \<times> 'v option"
    and put :: "int \<Rightarrow> 'k \<Rightarrow> 'v \<Rightarrow> 'm \<Rightarrow> 'm"
    and inv :: "'m \<Rightarrow> bool"
    and look :: "'m \<Rightarrow> int \<Rightarrow> 'k \<Rightarrow> 'v option"
  assumes get_inv: "inv m \<Longrightarrow> inv (fst (get now k m))"
    and put_inv: "inv m \<Longrightarrow> inv (put now k v m)"
    and get_result: "inv m \<Longrightarrow> snd (get now k m) = look m now k"
    and get_look: "inv m \<Longrightarrow> now \<le> t \<Longrightarrow> look (fst (get now k m)) t k' = look m t k'"
    and put_same: "inv m \<Longrightarrow> ok k \<Longrightarrow> look (put now k v m) now k = Some v"
    and put_other: "inv m \<Longrightarrow> now \<le> t \<Longrightarrow> k' \<noteq> k \<Longrightarrow> look (put now k v m) t k' \<in> {None, look m t k'}"
begin

text \<open>The pattern of every user: read, and on a miss store a new value.\<close>

lemma read_or_store:
  assumes "inv m" "ok k"
  shows "inv (case get now k m of (m', Some v) \<Rightarrow> m' | (m', None) \<Rightarrow> put now k new m')"
    and "look (case get now k m of (m', Some v) \<Rightarrow> m' | (m', None) \<Rightarrow> put now k new m') now k =
           (case look m now k of Some v \<Rightarrow> Some v | None \<Rightarrow> Some new)"
    and "k' \<noteq> k \<Longrightarrow> look (case get now k m of (m', Some v) \<Rightarrow> m' | (m', None) \<Rightarrow> put now k new m') now k'
           \<in> {None, look m now k'}"
proof -
  obtain m' r where g: "get now k m = (m', r)" by (cases "get now k m")
  with assms have inv': "inv m'" and r: "r = look m now k" and l: "\<And>k. look m' now k = look m now k"
    using get_inv [of m now k] get_result [of m now k] get_look [of m now now k] by simp_all
  show "inv (case get now k m of (m', Some v) \<Rightarrow> m' | (m', None) \<Rightarrow> put now k new m')"
    using g inv' put_inv by (simp split: option.split)
  show "look (case get now k m of (m', Some v) \<Rightarrow> m' | (m', None) \<Rightarrow> put now k new m') now k =
      (case look m now k of Some v \<Rightarrow> Some v | None \<Rightarrow> Some new)"
    using g inv' r l put_same assms(2) by (simp split: option.split)
  show "look (case get now k m of (m', Some v) \<Rightarrow> m' | (m', None) \<Rightarrow> put now k new m') now k'
      \<in> {None, look m now k'}" if "k' \<noteq> k"
    using g inv' l put_other [OF inv' order.refl that, of now new] by (simp split: option.split)
qed

end

section \<open>Lemmas\<close>

lemma remove1_filter: "distinct xs \<Longrightarrow> remove1 x xs = filter (\<lambda>y. y \<noteq> x) xs"
  by (simp add: distinct_remove1_removeAll removeAll_filter_not_eq) (metis (mono_tags, lifting))

lemma delete_filter: "AList.delete k xs = filter (\<lambda>p. fst p \<noteq> k) xs"
  by (induction xs) auto

lemma isExpiredAt_cong: "bm_ttl m = bm_ttl m' \<Longrightarrow> isExpiredAt m e now = isExpiredAt m' e now"
  by (simp add: isExpiredAt_def)

lemma drop_keys_simps [simp]:
  "bm_maxSize (drop_keys K m) = bm_maxSize m" "bm_ttl (drop_keys K m) = bm_ttl m"
  "bm_onEvict (drop_keys K m) = bm_onEvict m"
  "isExpiredAt (drop_keys K m) e now = isExpiredAt m e now"
  "isExpiredAt (m\<lparr>bm_lastSweep := s\<rparr>) e now = isExpiredAt m e now"
  "isExpiredAt (m\<lparr>bm_items := i\<rparr>) e now = isExpiredAt m e now"
  "isExpiredAt (m\<lparr>bm_lru := l\<rparr>) e now = isExpiredAt m e now"
  "isExpiredAt (m\<lparr>bm_opCount := c\<rparr>) e now = isExpiredAt m e now"
  by (simp_all add: drop_keys_def isExpiredAt_def)

lemma drop_keys_empty [simp]: "drop_keys {} m = m"
  by (simp add: drop_keys_def)

lemma drop_keys_drop_keys: "drop_keys K (drop_keys L m) = drop_keys (K \<union> L) m"
  by (simp add: drop_keys_def conj_commute)

lemma evictLocked_drop:
  "distinct (bm_lru m) \<Longrightarrow> fst (evictLocked m k e r) = drop_keys {k} m"
  by (simp add: evictLocked_def drop_keys_def remove1_filter delete_filter)

lemma sweep_loop_drop:
  "distinct (bm_lru m) \<Longrightarrow>
   fst (sweep_loop now es (m, r, ev)) = drop_keys (fst ` {e \<in> set es. isExpiredAt m (snd e) now}) m"
proof (induction es arbitrary: m r ev)
  case (Cons e es)
  obtain k en where e: "e = (k, en)" by (cases e)
  show ?case
  proof (cases "isExpiredAt m en now")
    case True
    have d: "distinct (bm_lru (drop_keys {k} m))" using Cons.prems by (simp add: drop_keys_def)
    have "fst (sweep_loop now (e # es) (m, r, ev)) =
        drop_keys (fst ` {e \<in> set es. isExpiredAt m (snd e) now}) (drop_keys {k} m)"
      using True e Cons.IH [OF d] evictLocked_drop [OF Cons.prems, of k en EvictReasonTTL]
      by (simp add: split_beta)
    moreover have "fst ` {e \<in> set es. isExpiredAt m (snd e) now} \<union> {k} =
        fst ` {e' \<in> set (e # es). isExpiredAt m (snd e') now}"
      using True e by force
    ultimately show ?thesis by (simp only: drop_keys_drop_keys)
  next
    case False
    then have "{e' \<in> set (e # es). isExpiredAt m (snd e') now} = {e \<in> set es. isExpiredAt m (snd e) now}"
      using e by auto
    with False e Cons show ?thesis by simp
  qed
qed simp

lemma fst_image_iff: "k \<in> fst ` {e \<in> S. P (snd e)} \<longleftrightarrow> (\<exists>v. (k, v) \<in> S \<and> P v)"
  by (auto simp: image_iff)

lemma expired_iff:
  "distinct (map fst (bm_items m)) \<Longrightarrow>
   expired m now k \<longleftrightarrow> k \<in> fst ` {e \<in> set (bm_items m). isExpiredAt m (snd e) now}"
proof (cases "map_of (bm_items m) k")
  case None
  then have "(k, e) \<notin> set (bm_items m)" for e
    by (auto simp: map_of_eq_None_iff image_iff)
  then show ?thesis unfolding fst_image_iff [of k "set (bm_items m)" "\<lambda>e. isExpiredAt m e now"] using None by (simp add: expired_def)
next
  case (Some e)
  assume d: "distinct (map fst (bm_items m))"
  have "(k, e') \<in> set (bm_items m) \<longleftrightarrow> e' = e" for e'
    using d Some map_of_eq_Some_iff [OF d, of k e'] by auto
  then show ?thesis unfolding fst_image_iff [of k "set (bm_items m)" "\<lambda>e. isExpiredAt m e now"] using Some by (simp add: expired_def)
qed

lemma sweepLocked_drop:
  assumes "bm_inv m"
  shows "fst (sweepLocked m now) = drop_keys {k. expired m now k} m"
proof -
  have "{k. expired m now k} = fst ` {e \<in> set (bm_items m). isExpiredAt m (snd e) now}"
    using assms by (simp add: expired_iff bm_inv_def)
  then have "fst (sweep_loop now (bm_items m) (m, 0, [])) = drop_keys {k. expired m now k} m"
    using assms sweep_loop_drop [of m now "bm_items m" 0 "[]"] by (simp add: bm_inv_def)
  moreover have "bm_ttl m \<le> 0 \<or> bm_items m = [] \<Longrightarrow> {k. expired m now k} = {}"
    by (auto simp: expired_def isExpiredAt_def split: option.splits)
  ultimately show ?thesis
    by (cases "bm_ttl m \<le> 0 \<or> bm_items m = []") (auto simp: sweepLocked_def)
qed

lemma maybeSweep_drop:
  assumes "bm_inv m"
  shows "\<exists>K s. fst (maybeSweepLocked m now) = (drop_keys K m)\<lparr>bm_lastSweep := s\<rparr> \<and>
           K \<subseteq> {k. expired m now k}"
proof -
  have "(drop_keys {} m)\<lparr>bm_lastSweep := bm_lastSweep m\<rparr> = m" by simp
  moreover have "fst (maybeSweepLocked m now) \<in> {m, (drop_keys {k. expired m now k} m)\<lparr>bm_lastSweep := now\<rparr>}"
    using sweepLocked_drop [OF assms, of now] by (simp add: maybeSweepLocked_def Let_def split_beta)
  ultimately show ?thesis by (metis empty_iff empty_subsetI insert_iff order.refl)
qed

text \<open>The order in which the runtime ranges over the map does not matter.\<close>

lemma sweepLocked_perm:
  assumes "bm_inv m" "mset xs = mset (bm_items m)"
  shows "mset (bm_items (fst (sweepLocked (m\<lparr>bm_items := xs\<rparr>) now))) = mset (bm_items (fst (sweepLocked m now)))"
    and "bm_lru (fst (sweepLocked (m\<lparr>bm_items := xs\<rparr>) now)) = bm_lru (fst (sweepLocked m now))"
proof -
  have s: "set xs = set (bm_items m)" using assms(2) by (metis set_mset_mset)
  have d: "distinct (map fst xs)"
    using assms by (metis bm_inv_def mset_eq_imp_distinct_iff mset_map)
  then have inv: "bm_inv (m\<lparr>bm_items := xs\<rparr>)"
    using assms s mset_eq_length [OF assms(2)] by (simp add: bm_inv_def)
  have e: "expired (m\<lparr>bm_items := xs\<rparr>) now k = expired m now k" for k
    using expired_iff [of "m\<lparr>bm_items := xs\<rparr>" now k] expired_iff [of m now k] d s assms(1)
    by (simp add: bm_inv_def)
  show "mset (bm_items (fst (sweepLocked (m\<lparr>bm_items := xs\<rparr>) now))) = mset (bm_items (fst (sweepLocked m now)))"
    "bm_lru (fst (sweepLocked (m\<lparr>bm_items := xs\<rparr>) now)) = bm_lru (fst (sweepLocked m now))"
    using assms by (simp_all add: sweepLocked_drop inv e drop_keys_def)
qed

lemma maybeSweep_no_ttl [simp]: "bm_ttl m \<le> 0 \<Longrightarrow> maybeSweepLocked m now = (m, [])"
  by (simp add: maybeSweepLocked_def)

lemma drop_keys_inv: "bm_inv m \<Longrightarrow> bm_inv (drop_keys K m)"
proof -
  assume inv: "bm_inv m"
  have "int (length (bm_items m)) \<le> bm_maxSize m" using inv by (simp add: bm_inv_def)
  then have "int (length (filter (\<lambda>p. fst p \<notin> K) (bm_items m))) \<le> bm_maxSize m"
    using length_filter_le [of "\<lambda>p. fst p \<notin> K" "bm_items m"] by linarith
  with inv show ?thesis
    by (auto simp: bm_inv_def drop_keys_def distinct_map_filter)
qed

lemma map_of_filter_keys: "map_of (filter (\<lambda>p. fst p \<notin> K) xs) k = (if k \<in> K then None else map_of xs k)"
  by (induction xs) auto

lemma map_of_drop_keys: "map_of (bm_items (drop_keys K m)) k = (if k \<in> K then None else map_of (bm_items m) k)"
  by (simp add: drop_keys_def map_of_filter_keys)

lemma live_drop_keys: "live (drop_keys K m) t k = (if k \<in> K then None else live m t k)"
  by (simp add: live_def map_of_drop_keys split: option.split)

lemma live_cong [simp]:
  "live (m\<lparr>bm_lastSweep := s\<rparr>) t k = live m t k" "live (m\<lparr>bm_lru := l\<rparr>) t k = live m t k"
  "live (m\<lparr>bm_opCount := c\<rparr>) t k = live m t k"
  by (simp_all add: live_def split: option.split)

lemma inv_cong [simp]:
  "bm_inv (m\<lparr>bm_lastSweep := s\<rparr>) = bm_inv m" "bm_inv (m\<lparr>bm_opCount := c\<rparr>) = bm_inv m"
  by (simp_all add: bm_inv_def)

lemma expired_later: "expired m now k \<Longrightarrow> now \<le> t \<Longrightarrow> live m t k = None"
  by (auto simp: expired_def live_def isExpiredAt_def split: option.splits if_splits)

text \<open>A sweep keeps the invariant and shows to every later reader what was there before.\<close>

lemma maybeSweep_inv: "bm_inv m \<Longrightarrow> bm_inv (fst (maybeSweepLocked m now))"
  using maybeSweep_drop [of m now] drop_keys_inv [of m] by auto

lemma maybeSweep_live: "bm_inv m \<Longrightarrow> now \<le> t \<Longrightarrow> live (fst (maybeSweepLocked m now)) t k = live m t k"
  using maybeSweep_drop [of m now] expired_later [of m now k t] by (auto simp: live_drop_keys)

lemma evict_inv: "bm_inv m \<Longrightarrow> bm_inv (fst (evictLocked m k e r))"
  by (simp add: evictLocked_drop bm_inv_def [of m] drop_keys_inv)

lemma evict_live: "bm_inv m \<Longrightarrow> live (fst (evictLocked m k e r)) t k' = (if k' = k then None else live m t k')"
  by (simp add: evictLocked_drop bm_inv_def live_drop_keys)

lemma set_MoveToFront: "k \<in> set l \<Longrightarrow> set (MoveToFront k l) = set l"
  using set_remove1_subset [of k l] by (auto simp: MoveToFront_def) (metis in_set_remove1)

lemma distinct_MoveToFront: "distinct l \<Longrightarrow> distinct (MoveToFront k l)"
  by (simp add: MoveToFront_def)

lemma front_inv: "bm_inv m \<Longrightarrow> k \<in> set (bm_lru m) \<Longrightarrow> bm_inv (m\<lparr>bm_lru := MoveToFront k (bm_lru m)\<rparr>)"
  by (simp add: bm_inv_def set_MoveToFront distinct_MoveToFront)

lemma map_of_lru: "bm_inv m \<Longrightarrow> map_of (bm_items m) k = Some e \<Longrightarrow> k \<in> set (bm_lru m)"
  by (auto simp: bm_inv_def dest: map_of_SomeD intro: rev_image_eqI)

lemma hit_inv:
  "bm_inv m \<Longrightarrow> map_of (bm_items m) k = Some e \<Longrightarrow>
   bm_inv (m\<lparr>bm_opCount := c, bm_lru := MoveToFront k (bm_lru m)\<rparr>)"
  using front_inv [of "m\<lparr>bm_opCount := c\<rparr>" k] map_of_lru [of m k e] by simp

lemma Get_inv: "bm_inv m \<Longrightarrow> bm_inv (fst (Get now k m))"
  by (auto simp: Get_def Let_def split_beta hit_inv intro!: maybeSweep_inv evict_inv split: option.split)

lemma Get_result: "bm_inv m \<Longrightarrow> fst (snd (Get now k m)) = live m now k"
  by (simp add: Get_def Let_def split_beta live_def split: option.split)

lemma live_expired: "map_of (bm_items m) k = Some e \<Longrightarrow> isExpiredAt m e now \<Longrightarrow> now \<le> t \<Longrightarrow> live m t k = None"
  by (rule expired_later [of m now]) (simp_all add: expired_def)

lemma Get_live:
  assumes "bm_inv m" "now \<le> t"
  shows "live (fst (Get now k m)) t k' = live m t k'"
proof (cases "map_of (bm_items m) k")
  case None
  with assms show ?thesis by (simp add: Get_def Let_def split_beta maybeSweep_live)
next
  case (Some e)
  then show ?thesis
    using assms live_expired [OF Some, of now t]
    by (simp add: Get_def Let_def split_beta maybeSweep_live evict_inv evict_live hit_inv)
qed

text \<open>The size bound is restored before the new entry goes in.\<close>

lemma evict_tail_spec:
  assumes "bm_inv m"
  shows "fst (evict_tail m) =
      (if int (length (bm_items m)) < bm_maxSize m then m else drop_keys {last (bm_lru m)} m)"
    and "bm_inv (fst (evict_tail m))"
    and "int (length (bm_items (fst (evict_tail m)))) < bm_maxSize m"
proof -
  have full: "bm_lru m \<noteq> [] \<and> (\<exists>e. map_of (bm_items m) (last (bm_lru m)) = Some e)"
    if "\<not> int (length (bm_items m)) < bm_maxSize m"
  proof -
    have "bm_items m \<noteq> []" using that assms by (auto simp: bm_inv_def)
    then have "bm_lru m \<noteq> []" using assms by (auto simp: bm_inv_def)
    moreover from this have "last (bm_lru m) \<in> fst ` set (bm_items m)"
      using assms last_in_set [of "bm_lru m"] by (simp add: bm_inv_def)
    ultimately show ?thesis by (metis map_of_eq_None_iff not_Some_eq)
  qed
  show eq: "fst (evict_tail m) =
      (if int (length (bm_items m)) < bm_maxSize m then m else drop_keys {last (bm_lru m)} m)"
    using full assms by (auto simp: evict_tail_def evictLocked_drop bm_inv_def)
  show "bm_inv (fst (evict_tail m))"
    using assms by (simp add: eq drop_keys_inv)
  have "length (filter (\<lambda>p. fst p \<notin> {last (bm_lru m)}) (bm_items m)) < length (bm_items m)"
    if "\<not> int (length (bm_items m)) < bm_maxSize m"
    using full [OF that] by (auto intro!: length_filter_less dest: map_of_SomeD)
  then show "int (length (bm_items (fst (evict_tail m)))) < bm_maxSize m"
    using assms by (fastforce simp: eq drop_keys_def bm_inv_def)
qed

lemma update_length: "length (AList.update k v xs) = (if k \<in> fst ` set xs then length xs else Suc (length xs))"
  by (induction xs) auto

lemma store_inv:
  assumes "bm_inv m" "k \<in> fst ` set (bm_items m) \<or> int (length (bm_items m)) < bm_maxSize m"
  shows "bm_inv (store now k v m)"
proof -
  have "set (MoveToFront k (bm_lru m)) = insert k (set (bm_lru m))"
    using assms(1) by (auto simp: MoveToFront_def bm_inv_def)
  then show ?thesis
    using assms by (auto simp: bm_inv_def store_def distinct_MoveToFront distinct_update update_length
        dom_update map_of_eq_None_iff)
qed

lemma store_live:
  "live (store now k v m) t k' =
     (if k' = k then (if bm_ttl m \<le> 0 \<or> now + bm_ttl m = 0 \<or> t < now + bm_ttl m then Some v else None)
      else live m t k')"
  by (auto simp: live_def store_def update_conv' isExpiredAt_def nextExpiryAt_def split: option.split)

lemma Put_store:
  assumes "bm_inv m"
  shows "\<exists>m'. fst (Put now k v m) = fst (maybeSweepLocked (store now k v m') now) \<and>
    m' = (if k \<in> fst ` set (bm_items m) \<or> int (length (bm_items m)) < bm_maxSize m
          then m\<lparr>bm_opCount := bm_opCount m + 1\<rparr>
          else drop_keys {last (bm_lru m)} (m\<lparr>bm_opCount := bm_opCount m + 1\<rparr>))"
proof (cases "map_of (bm_items m) k")
  case (Some e)
  then have "k \<in> fst ` set (bm_items m)" by (metis map_of_eq_None_iff option.distinct(1))
  with Some show ?thesis by (simp add: Put_def Let_def store_def nextExpiryAt_def)
next
  case None
  let ?m = "m\<lparr>bm_opCount := bm_opCount m + 1\<rparr>"
  have new: "k \<notin> fst ` set (bm_items m)" using None by (simp add: map_of_eq_None_iff)
  then have "k \<notin> set (bm_lru (fst (evict_tail ?m)))"
    using assms evict_tail_spec(1) [of ?m] by (auto simp: bm_inv_def drop_keys_def)
  then have "fst (Put now k v m) = fst (maybeSweepLocked (store now k v (fst (evict_tail ?m))) now)"
    using None by (simp add: Put_def Let_def store_def split_beta MoveToFront_def remove1_idem nextExpiryAt_def)
  then show ?thesis using new evict_tail_spec(1) [of ?m] assms by simp
qed

lemma room_inv:
  assumes "bm_inv m"
    and "m' = (if k \<in> fst ` set (bm_items m) \<or> int (length (bm_items m)) < bm_maxSize m
          then m\<lparr>bm_opCount := c\<rparr> else drop_keys {last (bm_lru m)} (m\<lparr>bm_opCount := c\<rparr>))"
  shows "bm_inv (store now k v m')"
proof (rule store_inv)
  let ?m = "m\<lparr>bm_opCount := c\<rparr>"
  show "bm_inv m'" using assms by (simp add: drop_keys_inv)
  show "k \<in> fst ` set (bm_items m') \<or> int (length (bm_items m')) < bm_maxSize m'"
    using assms evict_tail_spec(1,3) [of ?m] by auto
qed

lemma Put_inv: "bm_inv m \<Longrightarrow> bm_inv (fst (Put now k v m))"
  using Put_store [of m now k v] room_inv [of m _ k] maybeSweep_inv by metis

lemma Put_live:
  assumes "bm_inv m" "now \<le> t"
  shows "live (fst (Put now k v m)) t k' =
    (if k' = k then (if bm_ttl m \<le> 0 \<or> now + bm_ttl m = 0 \<or> t < now + bm_ttl m then Some v else None)
     else if k \<notin> fst ` set (bm_items m) \<and> int (length (bm_items m)) = bm_maxSize m \<and> k' = last (bm_lru m)
     then None else live m t k')"
proof -
  obtain m' where p: "fst (Put now k v m) = fst (maybeSweepLocked (store now k v m') now)"
    and m': "m' = (if k \<in> fst ` set (bm_items m) \<or> int (length (bm_items m)) < bm_maxSize m
          then m\<lparr>bm_opCount := bm_opCount m + 1\<rparr>
          else drop_keys {last (bm_lru m)} (m\<lparr>bm_opCount := bm_opCount m + 1\<rparr>))"
    using Put_store [OF assms(1)] by blast
  have "live (fst (Put now k v m)) t k' = live (store now k v m') t k'"
    unfolding p by (intro maybeSweep_live room_inv [OF assms(1) m'] assms(2))
  moreover have "int (length (bm_items m)) \<le> bm_maxSize m" using assms(1) by (simp add: bm_inv_def)
  ultimately show ?thesis using m' by (auto simp: store_live live_drop_keys)
qed

lemma Delete_inv: "bm_inv m \<Longrightarrow> bm_inv (fst (Delete now k m))"
  by (auto simp: Delete_def Let_def split_beta intro!: maybeSweep_inv evict_inv split: option.split)

lemma Delete_live:
  "bm_inv m \<Longrightarrow> now \<le> t \<Longrightarrow> live (fst (Delete now k m)) t k' = (if k' = k then None else live m t k')"
  by (auto simp: Delete_def Let_def split_beta maybeSweep_live evict_inv evict_live live_def [of m t k]
      split: option.split)

lemma Sweep_inv: "bm_inv m \<Longrightarrow> bm_inv (fst (Sweep now m))"
  by (simp add: Sweep_def split_beta sweepLocked_drop drop_keys_inv)

lemma Sweep_live: "bm_inv m \<Longrightarrow> now \<le> t \<Longrightarrow> live (fst (Sweep now m)) t k = live m t k"
  using expired_later [of m now k t] by (auto simp: Sweep_def split_beta sweepLocked_drop live_drop_keys)

lemma New_inv: "bm_inv (NewBoundedMap n d now)"
  by (simp add: NewBoundedMap_def bm_inv_def)

lemmas bm_ops_inv = New_inv Get_inv Put_inv Delete_inv Sweep_inv

interpretation bmap: cache "\<lambda>_. True" "\<lambda>now k m. (fst (Get now k m), fst (snd (Get now k m)))" "\<lambda>now k v m. fst (Put now k v m)"
  bm_inv live
  by unfold_locales (auto simp: Get_inv Put_inv Get_result Get_live Put_live)

lemma setters_inv:
  "bm_inv m \<Longrightarrow> bm_inv (SetOnEvict fn m)" "bm_inv m \<Longrightarrow> bm_inv (SetSweepEveryOps c m)"
  "bm_inv m \<Longrightarrow> bm_inv (SetSweepMinInterval d m)"
  by (simp_all add: bm_inv_def SetOnEvict_def SetSweepEveryOps_def SetSweepMinInterval_def)

lemma bm_reach_inv: "bm_reach m \<Longrightarrow> bm_inv m"
  by (induction rule: bm_reach.induct) (auto intro: bm_ops_inv setters_inv)

subsection \<open>Least recently used\<close>

lemma length_lru: "bm_inv m \<Longrightarrow> length (bm_lru m) = length (bm_items m)"
proof -
  assume inv: "bm_inv m"
  then have "length (bm_lru m) = card (set (map fst (bm_items m)))"
    by (metis bm_inv_def distinct_card list.set_map)
  also have "\<dots> = length (bm_items m)"
    using inv by (simp only: bm_inv_def distinct_card length_map)
  finally show ?thesis .
qed

lemma take_remove1: "take n (remove1 k xs) = take n (remove1 k (take (Suc n) xs))"
proof (induction xs arbitrary: n)
  case (Cons x xs)
  then show ?case by (cases n) auto
qed simp

lemma take_MoveToFront: "take n (MoveToFront k (take n xs)) = take n (MoveToFront k xs)"
  by (cases n) (simp_all add: MoveToFront_def flip: take_remove1)

lemma filter_last: "distinct xs \<Longrightarrow> xs \<noteq> [] \<Longrightarrow> filter (\<lambda>x. x \<noteq> last xs) xs = butlast xs"
  by (induction xs rule: rev_induct) (auto simp: filter_id_conv)

lemma Put_lru:
  assumes "bm_inv m" "bm_ttl m \<le> 0"
  shows "bm_lru (fst (Put now k v m)) = take (nat (bm_maxSize m)) (MoveToFront k (bm_lru m))"
proof -
  have len: "length (bm_lru m) = length (bm_items m)" "int (length (bm_items m)) \<le> bm_maxSize m"
    "1 \<le> bm_maxSize m"
    using length_lru [OF assms(1)] assms(1) by (auto simp: bm_inv_def)
  obtain m' where p: "fst (Put now k v m) = fst (maybeSweepLocked (store now k v m') now)"
    and m': "m' = (if k \<in> fst ` set (bm_items m) \<or> int (length (bm_items m)) < bm_maxSize m
          then m\<lparr>bm_opCount := bm_opCount m + 1\<rparr>
          else drop_keys {last (bm_lru m)} (m\<lparr>bm_opCount := bm_opCount m + 1\<rparr>))"
    using Put_store [OF assms(1)] by blast
  have "bm_ttl (store now k v m') \<le> 0" using assms(2) m' by (simp add: store_def)
  then have lru: "bm_lru (fst (Put now k v m)) = MoveToFront k (bm_lru m')"
    using p by (simp add: store_def)
  have sets: "set (bm_lru m) = fst ` set (bm_items m)" and d: "distinct (bm_lru m)"
    using assms(1) by (simp_all add: bm_inv_def)
  show ?thesis
  proof (cases "k \<in> fst ` set (bm_items m) \<or> int (length (bm_items m)) < bm_maxSize m")
    case True
    have "length (MoveToFront k (bm_lru m)) \<le> nat (bm_maxSize m)"
      using True len sets by (auto simp: MoveToFront_def length_remove1)
    with True show ?thesis using lru m' by simp
  next
    case False
    then have k: "k \<notin> set (bm_lru m)" and n: "nat (bm_maxSize m) = Suc (length (bm_lru m) - 1)"
      and ne: "bm_lru m \<noteq> []"
      using len sets by auto
    have "MoveToFront k (bm_lru m') = k # butlast (bm_lru m)"
    proof -
      have "k \<notin> set (butlast (bm_lru m))" using k in_set_butlastD by metis
      then show ?thesis
        using False m' d ne by (simp add: drop_keys_def MoveToFront_def filter_last remove1_idem)
    qed
    then show ?thesis using lru k n by (simp add: MoveToFront_def remove1_idem butlast_conv_take)
  qed
qed

lemma Put_config: "bm_inv m \<Longrightarrow> bm_maxSize (fst (Put now k v m)) = bm_maxSize m"
  "bm_inv m \<Longrightarrow> bm_ttl (fst (Put now k v m)) = bm_ttl m"
proof -
  assume inv: "bm_inv m"
  obtain m' where p: "fst (Put now k v m) = fst (maybeSweepLocked (store now k v m') now)"
    and m': "m' = (if k \<in> fst ` set (bm_items m) \<or> int (length (bm_items m)) < bm_maxSize m
          then m\<lparr>bm_opCount := bm_opCount m + 1\<rparr>
          else drop_keys {last (bm_lru m)} (m\<lparr>bm_opCount := bm_opCount m + 1\<rparr>))"
    using Put_store [OF inv] by blast
  obtain K s where "fst (Put now k v m) = (drop_keys K (store now k v m'))\<lparr>bm_lastSweep := s\<rparr>"
    using maybeSweep_drop [OF room_inv [OF inv m']] p by metis
  then show "bm_maxSize (fst (Put now k v m)) = bm_maxSize m" "bm_ttl (fst (Put now k v m)) = bm_ttl m"
    using m' by (simp_all add: store_def)
qed

lemma live_lru:
  assumes "bm_inv m" "bm_ttl m \<le> 0"
  shows "k \<in> set (bm_lru m) \<longleftrightarrow> live m t k \<noteq> None"
proof -
  have "k \<in> set (bm_lru m) \<longleftrightarrow> map_of (bm_items m) k \<noteq> None"
    using assms(1) by (simp add: bm_inv_def map_of_eq_None_iff)
  with assms(2) show ?thesis by (auto simp: live_def isExpiredAt_def)
qed

lemma put_all_inv: "bm_inv m \<Longrightarrow> bm_inv (put_all now kvs m)"
  by (induction now kvs m rule: put_all.induct) (simp_all add: Put_inv)

lemma put_all_config:
  "bm_inv m \<Longrightarrow> bm_maxSize (put_all now kvs m) = bm_maxSize m"
  "bm_inv m \<Longrightarrow> bm_ttl (put_all now kvs m) = bm_ttl m"
  by (induction now kvs m rule: put_all.induct) (simp_all add: Put_inv Put_config)

lemma put_all_lru:
  assumes "bm_inv m" "bm_ttl m \<le> 0" "bm_lru m = take (nat (bm_maxSize m)) acc"
  shows "bm_lru (put_all now kvs m) = take (nat (bm_maxSize m)) (recency acc (map fst kvs))"
  using assms
proof (induction kvs arbitrary: m acc)
  case (Cons kv kvs)
  obtain k v where kv: "kv = (k, v)" by (cases kv)
  from Cons.IH [of "fst (Put now k v m)" "MoveToFront k acc"] Cons.prems show ?case
    using kv by (simp add: Put_inv Put_config Put_lru take_MoveToFront)
qed simp

lemma set_put_all_lru:
  "bm_inv m \<Longrightarrow> bm_ttl m \<le> 0 \<Longrightarrow> set (bm_lru (put_all now kvs m)) \<subseteq> set (bm_lru m) \<union> fst ` set kvs"
proof (induction now kvs m rule: put_all.induct)
  case (2 now k v kvs m)
  have "set (bm_lru (fst (Put now k v m))) \<subseteq> insert k (set (bm_lru m))"
    using 2 set_take_subset [of "nat (bm_maxSize m)" "MoveToFront k (bm_lru m)"]
      set_remove1_subset [of k "bm_lru m"] by (auto simp: Put_lru MoveToFront_def)
  with 2 show ?case by (fastforce simp: Put_inv Put_config)
qed simp

lemma put_all_live:
  assumes "bm_inv m" "bm_ttl m \<le> 0" "k \<in> set (bm_lru (put_all now kvs m))"
  shows "live (put_all now kvs m) now k = ((\<lambda>k. live m now k) ++ map_of (rev kvs)) k"
  using assms
proof (induction now kvs m rule: put_all.induct)
  case (2 now k' v kvs m)
  let ?m = "fst (Put now k' v m)"
  have m: "bm_inv ?m" "bm_ttl ?m \<le> 0" using 2 by (simp_all add: Put_inv Put_config)
  have IH: "live (put_all now kvs ?m) now k = ((\<lambda>k. live ?m now k) ++ map_of (rev kvs)) k"
    using 2 m by simp
  show ?case
  proof (cases "map_of (rev kvs) k")
    case None
    then have "k \<notin> fst ` set kvs" by (simp add: map_of_eq_None_iff)
    then have "k \<in> set (bm_lru ?m)" using set_put_all_lru [OF m] 2(4) by auto
    then have "live ?m now k \<noteq> None" using live_lru [OF m] by simp
    then show ?thesis
      using IH None 2(2,3) Put_live [of m now now k' v k] by (auto simp: map_add_def split: if_splits)
  next
    case (Some x)
    with IH show ?thesis by (simp add: map_add_def)
  qed
qed simp

section \<open>Properties\<close>

text \<open>
  Property C15. Whatever sequence of operations a map has seen, its index and its recency list hold the
  same distinct keys, and it never holds more than \<open>maxSize\<close> entries.
\<close>

theorem bounded_map_bounded:
  assumes "bm_reach m"
  shows "distinct (bm_lru m) \<and> distinct (map fst (bm_items m)) \<and> set (bm_lru m) = fst ` set (bm_items m)
    \<and> Len m \<le> bm_maxSize m \<and> 1 \<le> bm_maxSize m"
  using bm_reach_inv [OF assms] by (simp add: bm_inv_def Len_def)

theorem bounded_map_bounded_witness:
  "Len (put_all 5 [(1 :: int, 10 :: int), (2, 20), (3, 30)] (NewBoundedMap 2 60 0)) \<le> 2"
proof -
  let ?m = "put_all 5 [(1 :: int, 10 :: int), (2, 20), (3, 30)] (NewBoundedMap 2 60 0)"
  have "bm_reach ?m" by (simp add: bm_reach.intros)
  moreover have "bm_maxSize ?m = 2" by code_simp
  ultimately show ?thesis using bounded_map_bounded [of ?m] by simp
qed

text \<open>
  Property C13. What a reader sees: a read returns the stored value until it expires and changes nothing
  for anyone; a write is visible for its time to live, and changes nothing else except that a new key in
  a full map replaces the least recently used one; a delete hides its key alone; a sweep hides nothing.
\<close>

theorem bounded_map_reads_writes:
  assumes "bm_inv m" and "now \<le> t"
  shows "fst (snd (Get now k m)) = live m now k
    \<and> live (fst (Get now k m)) t k' = live m t k'
    \<and> live (fst (Put now k v m)) t k' =
        (if k' = k then (if bm_ttl m \<le> 0 \<or> now + bm_ttl m = 0 \<or> t < now + bm_ttl m then Some v else None)
         else if k \<notin> fst ` set (bm_items m) \<and> int (length (bm_items m)) = bm_maxSize m \<and> k' = last (bm_lru m)
         then None else live m t k')
    \<and> live (fst (Delete now k m)) t k' = (if k' = k then None else live m t k')
    \<and> live (fst (Sweep now m)) t k' = live m t k'"
  using assms by (simp add: Get_result Get_live Put_live Delete_live Sweep_live)

theorem bounded_map_reads_writes_witness:
  "live (fst (Put 5 (1 :: int) (10 :: int) (NewBoundedMap 2 60 0))) 64 1 = Some 10
   \<and> live (fst (Put 5 (1 :: int) (10 :: int) (NewBoundedMap 2 60 0))) 65 1 = None"
proof -
  have "bm_inv (NewBoundedMap 2 60 0 :: (int, int) BoundedMap)" by (rule New_inv)
  from bounded_map_reads_writes [OF this, of 5 64] bounded_map_reads_writes [OF this, of 5 65]
  show ?thesis by (simp add: NewBoundedMap_def)
qed



end
