(* ===== verification/Session_Limits.thy ===== *)
theory Session_Limits
  imports Delivery_Domain Bounded_Map
begin

text \<open>
  What a delivery session is configured with (\<open>internal/actors/delivery/runtime\<close>): the token bucket of
  \<open>rate_limiter.go\<close>, the limits that \<open>effective_limits.go\<close> derives from the session configuration of
  \<open>session.go\<close>, and the features that client and server agree on, a set of bits in a byte.

  Durations and times are nanoseconds; the value that the clock returns is an argument of \<open>Allow\<close>.
  The configuration keeps the fields that a decision of the session depends on: the logger, the metrics
  labels and the callbacks are left out, and the router, the connection and the shared caches are only
  present or absent here.
\<close>

section \<open>The rate limiter\<close>

record RateLimitConfig =
  rl_Enabled :: bool
  rl_MaxPerSecond :: int
  rl_BurstCapacity :: int

record RateLimiter =
  rl_tokens :: int
  rl_maxTokens :: int
  rl_refillRate :: int
  rl_lastRefill :: int

definition NewRateLimiter :: "int \<Rightarrow> int \<Rightarrow> int \<Rightarrow> RateLimiter" where
  "NewRateLimiter maxTokens refillRate now =
     (let maxTokens = (if maxTokens \<le> 0 then 1 else maxTokens);
          refillRate = (if refillRate \<le> 0 then 1 else refillRate)
      in \<lparr>rl_tokens = maxTokens, rl_maxTokens = maxTokens, rl_refillRate = refillRate, rl_lastRefill = now\<rparr>)"

definition minInt :: "int \<Rightarrow> int \<Rightarrow> int" where
  "minInt a b = (if a < b then a else b)"

text \<open>\<open>time.Duration.Seconds\<close>: the whole seconds and the rest are added as floating point numbers.\<close>

definition Seconds :: "int \<Rightarrow> f64" where
  "Seconds d =
     (let sec = d sdiv 1000000000; nsec = d smod 1000000000
      in f64_add (f64_of_int sec) (f64_div (f64_of_int nsec) (f64_of_int 1000000000)))"

definition Allow :: "int \<Rightarrow> RateLimiter option \<Rightarrow> RateLimiter option \<times> bool" where
  "Allow now r =
     (case r of
        None \<Rightarrow> (None, True)
      | Some r \<Rightarrow>
          let elapsed = time_sub now (rl_lastRefill r);
              refill = wrap64 (f64_to_int64 (Seconds elapsed) * rl_refillRate r);
              r = (if refill > 0
                   then r\<lparr>rl_tokens := minInt (wrap64 (rl_tokens r + refill)) (rl_maxTokens r),
                          rl_lastRefill := now\<rparr>
                   else r)
          in if rl_tokens r \<le> 0 then (Some r, False)
             else (Some (r\<lparr>rl_tokens := rl_tokens r - 1\<rparr>), True))"

section \<open>Configuration and limits\<close>

definition readLimitBytes :: int where
  "readLimitBytes = 64 * 1024"

definition wsKeepalivePingInterval :: int where
  "wsKeepalivePingInterval = 20 * 1000000000"

definition wsMetricsCadence :: int where
  "wsMetricsCadence = 5 * 1000000000"

definition wsFlushBatchSize :: nat where
  "wsFlushBatchSize = 32"

definition wsCompressThresholdBytes :: int where
  "wsCompressThresholdBytes = 1024"

record SessionConfig =
  sc_hasRouter :: bool
  sc_hasConn :: bool
  sc_connCompresses :: bool
  sc_ServerInstanceID :: string
  sc_OutboundQueueSize :: int
  sc_BackpressurePolicy :: string
  sc_BackpressurePriorities :: "(string \<times> int) list"
  sc_PreferProto :: bool
  sc_RateLimit :: RateLimitConfig
  sc_SlowClientDropThreshold :: int
  sc_MaxSubscriptions :: int
  sc_MaxSignalSubscriptions :: int
  sc_MaxSymbolsPerConnection :: int
  sc_MaxFrameBytes :: int
  sc_KeepaliveInterval :: int
  sc_MetricsCadence :: int
  sc_hasSnapshotWireCache :: bool
  sc_CompressionEnabled :: bool
  sc_RequireClientHello :: bool

record EffectiveLimits =
  el_MaxSubscriptions :: int
  el_MaxSignalSubscriptions :: int
  el_MaxSymbolsPerConnection :: int
  el_MaxFrameBytes :: int
  el_OutboundQueueSize :: int
  el_RateLimit :: RateLimitConfig
  el_MetricsCadenceMs :: int
  el_KeepaliveIntervalMs :: int
  el_CompressThresholdBytes :: int
  el_SlowClientDropThreshold :: int

definition NewEffectiveLimits :: "SessionConfig \<Rightarrow> EffectiveLimits" where
  "NewEffectiveLimits cfg =
     \<lparr>el_MaxSubscriptions = sc_MaxSubscriptions cfg,
      el_MaxSignalSubscriptions = sc_MaxSignalSubscriptions cfg,
      el_MaxSymbolsPerConnection = sc_MaxSymbolsPerConnection cfg,
      el_MaxFrameBytes = (if sc_MaxFrameBytes cfg \<le> 0 then readLimitBytes else sc_MaxFrameBytes cfg),
      el_OutboundQueueSize = (if sc_OutboundQueueSize cfg \<le> 0 then 256 else sc_OutboundQueueSize cfg),
      el_RateLimit = sc_RateLimit cfg,
      el_MetricsCadenceMs =
        (if sc_MetricsCadence cfg \<le> 0 then wsMetricsCadence else sc_MetricsCadence cfg) sdiv 1000000,
      el_KeepaliveIntervalMs =
        (if sc_KeepaliveInterval cfg \<le> 0 then wsKeepalivePingInterval else sc_KeepaliveInterval cfg) sdiv 1000000,
      el_CompressThresholdBytes = wsCompressThresholdBytes,
      el_SlowClientDropThreshold = sc_SlowClientDropThreshold cfg\<rparr>"

record wsHelloCapabilities =
  hc_Topics :: "string list"
  hc_Venues :: "string list"
  hc_MaxSubscriptionsPerConn :: int
  hc_MaxSignalSubscriptionsPerConn :: int
  hc_MaxSymbolsPerConnection :: int
  hc_MaxFrameBytes :: int
  hc_OutboundQueueSize :: int
  hc_MetricsCadenceMs :: int
  hc_KeepaliveIntervalMs :: int
  hc_RateLimit :: "RateLimitConfig option"
  hc_SupportedFeatures :: "string list"

definition ToHelloCapabilities :: "EffectiveLimits \<Rightarrow> bool \<Rightarrow> wsHelloCapabilities" where
  "ToHelloCapabilities el compressionEnabled =
     \<lparr>hc_Topics = [''marketdata.trade'', ''marketdata.bookdelta'', ''aggregation.snapshot'',
        ''aggregation.stats'', ''aggregation.candle'', ''aggregation.tape'', ''liquidity.evidence'',
        ''insights.heatmap_snapshot'', ''insights.volume_profile_snapshot'', ''signal''],
      hc_Venues = [''binance'', ''bybit'', ''coinbase'', ''kraken'', ''hyperliquid''],
      hc_MaxSubscriptionsPerConn = el_MaxSubscriptions el,
      hc_MaxSignalSubscriptionsPerConn = el_MaxSignalSubscriptions el,
      hc_MaxSymbolsPerConnection = el_MaxSymbolsPerConnection el,
      hc_MaxFrameBytes = el_MaxFrameBytes el,
      hc_OutboundQueueSize = el_OutboundQueueSize el,
      hc_MetricsCadenceMs = el_MetricsCadenceMs el,
      hc_KeepaliveIntervalMs = el_KeepaliveIntervalMs el,
      hc_RateLimit =
        (if rl_Enabled (el_RateLimit el)
         then Some \<lparr>rl_Enabled = True, rl_MaxPerSecond = rl_MaxPerSecond (el_RateLimit el),
                    rl_BurstCapacity = rl_BurstCapacity (el_RateLimit el)\<rparr>
         else None),
      hc_SupportedFeatures =
        [''batching'', ''snapshot_hash'', ''prev_seq''] @ (if compressionEnabled then [''compress''] else [])\<rparr>"

section \<open>Negotiated features\<close>

unbundle bit_operations_syntax

type_synonym NegotiatedFeatures = "8 word"

definition featureBatching :: "8 word" where "featureBatching = 1"
definition featureCompress :: "8 word" where "featureCompress = 2"
definition featureSnapshotHash :: "8 word" where "featureSnapshotHash = 4"
definition featurePrevSeq :: "8 word" where "featurePrevSeq = 8"

definition featureNameToBit :: "(string \<times> 8 word) list" where
  "featureNameToBit =
     [(''batching'', featureBatching), (''compress'', featureCompress),
      (''snapshot_hash'', featureSnapshotHash), (''prev_seq'', featurePrevSeq)]"

fun negotiate_loop ::
  "bool \<Rightarrow> string list \<Rightarrow> NegotiatedFeatures \<times> string list \<times> string list \<times> string list \<Rightarrow>
   NegotiatedFeatures \<times> string list \<times> string list" where
  "negotiate_loop compressionEnabled [] (nf, seen, valid, unknown) = (nf, valid, unknown)"
| "negotiate_loop compressionEnabled (raw # rest) (nf, seen, valid, unknown) =
     (let f = ToLower (TrimSpace raw) in
      if f = '''' then negotiate_loop compressionEnabled rest (nf, seen, valid, unknown)
      else if f \<in> set seen then negotiate_loop compressionEnabled rest (nf, seen, valid, unknown)
      else
        let seen = f # seen in
        case map_of featureNameToBit f of
          None \<Rightarrow> negotiate_loop compressionEnabled rest (nf, seen, valid, unknown @ [f])
        | Some flag \<Rightarrow>
            if f = ''compress'' \<and> \<not> compressionEnabled
            then negotiate_loop compressionEnabled rest (nf, seen, valid, unknown @ [f])
            else negotiate_loop compressionEnabled rest (nf OR flag, seen, valid @ [f], unknown))"

definition NegotiateFeatures ::
  "string list \<Rightarrow> bool \<Rightarrow> NegotiatedFeatures \<times> string list \<times> string list" where
  "NegotiateFeatures requested compressionEnabled = negotiate_loop compressionEnabled requested (0, [], [], [])"

definition Has :: "NegotiatedFeatures \<Rightarrow> string \<Rightarrow> bool" where
  "Has nf name =
     (case map_of featureNameToBit (ToLower (TrimSpace name)) of
        None \<Rightarrow> False
      | Some flag \<Rightarrow> nf AND flag \<noteq> 0)"

definition HasBatching :: "NegotiatedFeatures \<Rightarrow> bool" where
  "HasBatching nf \<longleftrightarrow> nf AND featureBatching \<noteq> 0"

definition HasCompression :: "NegotiatedFeatures \<Rightarrow> bool" where
  "HasCompression nf \<longleftrightarrow> nf AND featureCompress \<noteq> 0"

definition feature_List :: "NegotiatedFeatures \<Rightarrow> string list" where
  "feature_List nf =
     (if nf AND featureBatching \<noteq> 0 then [''batching''] else []) @
     (if nf AND featureCompress \<noteq> 0 then [''compress''] else []) @
     (if nf AND featureSnapshotHash \<noteq> 0 then [''snapshot_hash''] else []) @
     (if nf AND featurePrevSeq \<noteq> 0 then [''prev_seq''] else [])"

section \<open>Specification\<close>

text \<open>The limiter asked at each of the given times: its last state and the number of commands it let through.\<close>

fun allow_run :: "int list \<Rightarrow> RateLimiter option \<Rightarrow> RateLimiter option \<times> int" where
  "allow_run [] r = (r, 0)"
| "allow_run (now # ts) r =
     (case Allow now r of (r', ok) \<Rightarrow> (case allow_run ts r' of (r'', n) \<Rightarrow> (r'', n + (if ok then 1 else 0))))"

section \<open>Lemmas\<close>

lemma smod_pos: "0 \<le> a \<Longrightarrow> 0 < b \<Longrightarrow> a smod b = a mod (b :: int)"
  by (cases "a = 0") (auto simp: signed_modulo_int_def)

lemma div_billion:
  assumes "0 \<le> n" "n < 1000000000"
  shows "\<exists>y. f64_div (f64_of_int n) (f64_of_int 1000000000) = FFin False y \<and> 0 \<le> y \<and>
     y \<le> 1 - 1 / 1000000000 + 1 / 2 ^ 53"
proof -
  let ?q = "of_int n / (1000000000 :: rat)"
  have q: "0 \<le> ?q" "?q \<le> 1 - 1 / 1000000000" using assms by (simp_all add: field_simps)
  have "?q \<le> 2 ^ 64" using q by simp
  then have "f64_div (f64_of_int n) (f64_of_int 1000000000) = FFin False (round_mag ?q)"
    using assms by (simp add: f64_of_int_exact f64_round_fin)
  moreover have "round_mag ?q \<le> 1 - 1 / 1000000000 + 1 / 2 ^ 53"
  proof (cases "n = 0")
    case False
    then have "pow2 (- 1022) \<le> ?q"
    proof -
      have "pow2 (- 1022) \<le> pow2 (- 30)" by (rule pow2_mono) simp
      also have "\<dots> \<le> 1 / 1000000000" by (simp add: pow2_def)
      also have "\<dots> \<le> ?q" using assms False by (simp add: field_simps)
      finally show ?thesis .
    qed
    from round_mag_error [OF this] q have "round_mag ?q \<le> ?q + ?q / 2 ^ 53" by linarith
    moreover have "?q / 2 ^ 53 \<le> 1 / 2 ^ 53" using q by (intro divide_right_mono) simp_all
    ultimately show ?thesis using q by linarith
  qed simp
  ultimately show ?thesis by auto
qed

lemma round_floor:
  assumes "0 \<le> n" "n < 2 ^ 22" "0 \<le> y" "y \<le> 1 - 1 / 1000000000 + 1 / 2 ^ 53"
  shows "\<lfloor>round_mag (of_int n + y)\<rfloor> = n"
proof -
  have "round_mag (of_int n) \<le> round_mag (of_int n + y)" using assms(3) by (intro round_mag_mono) simp
  then have ge: "of_int n \<le> round_mag (of_int n + y)" using assms by (simp add: round_mag_int)
  have "round_mag (of_int n + y) < of_int n + 1"
  proof (cases "pow2 (- 1022) \<le> of_int n + y")
    case True
    have "(of_int n :: rat) \<le> of_int (2 ^ 22 - 1)" using assms(2) by (intro of_int_le_iff [THEN iffD2]) simp
    then have "of_int n + y \<le> 2 ^ 22" using assms(4) by simp
    then have "(of_int n + y) / 2 ^ 53 \<le> 2 ^ 22 / 2 ^ 53" by (intro divide_right_mono) simp_all
    with round_mag_error [OF True] have "round_mag (of_int n + y) \<le> of_int n + y + 2 ^ 22 / 2 ^ 53" by linarith
    with assms(4) show ?thesis by simp
  next
    case False
    then have "round_mag (of_int n + y) \<le> pow2 (- 1022)" by (intro round_mag_le_pow2) simp_all
    also have "\<dots> \<le> pow2 (- 1)" by (rule pow2_mono) simp
    finally show ?thesis using assms(1) by (simp add: pow2_def)
  qed
  with ge show ?thesis by (simp add: floor_eq_iff)
qed

lemma seconds_floor:
  assumes "0 \<le> d" "d < 2 ^ 22 * 1000000000"
  shows "f64_to_int64 (Seconds d) = d div 1000000000"
proof -
  let ?s = "d div 1000000000"
  have s: "0 \<le> ?s" "?s < 2 ^ 22" using assms by (simp_all add: pos_imp_zdiv_nonneg_iff div_less_iff_less_mult)
  obtain y where y: "f64_div (f64_of_int (d mod 1000000000)) (f64_of_int 1000000000) = FFin False y"
      "0 \<le> y" "y \<le> 1 - 1 / 1000000000 + 1 / 2 ^ 53"
    using div_billion [of "d mod 1000000000"] by auto
  have "(of_int ?s :: rat) \<le> of_int (2 ^ 22)" using s by (intro of_int_le_iff [THEN iffD2]) simp
  then have "of_int ?s + y \<le> 2 ^ 64" using y(3) by simp
  moreover have "f64_of_int ?s = FFin False (of_int ?s)" using s by (intro f64_of_int_exact) simp_all
  moreover have "of_int ?s + y = 0 \<Longrightarrow> round_mag (of_int ?s + y) = 0" by simp
  ultimately have "Seconds d = FFin False (round_mag (of_int ?s + y))"
    using assms(1) s y by (auto simp: Seconds_def Let_def sdiv_pos smod_pos fval_def f64_round_fin simp del: add_eq_0_iff)
  then show ?thesis using s round_floor [OF s y(2,3)] by (simp add: i64_def)
qed

text \<open>One call: what is granted is taken from the tokens, which only whole seconds add to.\<close>

lemma Allow_step:
  assumes "Allow now (Some r) = (r', ok)" and t: "rl_lastRefill r \<le> now" "now - rl_lastRefill r < 2 ^ 22 * 1000000000"
    and rate: "0 < rl_refillRate r" "rl_refillRate r * 2 ^ 22 + rl_maxTokens r \<le> MaxInt64"
    and tok: "0 \<le> rl_tokens r" "rl_tokens r \<le> rl_maxTokens r"
  obtains s where "r' = Some s" "rl_refillRate s = rl_refillRate r" "rl_maxTokens s = rl_maxTokens r"
    "0 \<le> rl_tokens s" "rl_tokens s \<le> rl_maxTokens r" "rl_lastRefill r \<le> rl_lastRefill s" "rl_lastRefill s \<le> now"
    "rl_tokens s + (if ok then 1 else 0)
       \<le> rl_tokens r + rl_refillRate r * ((rl_lastRefill s - rl_lastRefill r) div 1000000000)"
proof -
  let ?e = "now - rl_lastRefill r"
  let ?n = "rl_refillRate r * (?e div 1000000000)"
  have e: "0 \<le> ?e div 1000000000" "?e div 1000000000 < 2 ^ 22"
    using t by (simp_all add: pos_imp_zdiv_nonneg_iff div_less_iff_less_mult)
  then have "?n \<le> rl_refillRate r * 2 ^ 22" using rate by (intro mult_left_mono) simp_all
  then have n: "0 \<le> ?n" "?n + rl_maxTokens r \<le> MaxInt64" using e rate by (simp, linarith)
  have sub: "time_sub now (rl_lastRefill r) = ?e" using t by (simp add: time_sub_def Let_def)
  have wrap: "wrap64 (f64_to_int64 (Seconds ?e) * rl_refillRate r) = ?n"
    "wrap64 (rl_tokens r + ?n) = rl_tokens r + ?n"
    using t n tok by (simp_all add: seconds_floor wrap64_id i64_def mult.commute)
  obtain s where s: "r' = Some s" using assms(1) by (auto simp: Allow_def Let_def split: if_splits)
  show thesis
  proof (cases "0 < ?n")
    case True
    then show thesis
      using assms(1) n tok t(1) s by (intro that [OF s]) (auto simp: Allow_def Let_def sub wrap minInt_def split: if_splits)
  next
    case False
    with n have "?n = 0" by simp
    then show thesis
      using assms(1) tok t(1) s by (intro that [OF s]) (auto simp: Allow_def Let_def sub wrap split: if_splits)
  qed
qed

lemma div_add_le: "(a div c) + (b div c) \<le> (a + b) div (c :: int)" if "0 < c"
  using that by (simp add: div_add1_eq [of a b] pos_imp_zdiv_nonneg_iff)

lemma allow_run_bound:
  assumes "allow_run ts (Some r) = (r', n)" "sorted (rl_lastRefill r # ts)"
    and "last (rl_lastRefill r # ts) - rl_lastRefill r < 2 ^ 22 * 1000000000"
    and "0 < rl_refillRate r" "rl_refillRate r * 2 ^ 22 + rl_maxTokens r \<le> MaxInt64"
    and "0 \<le> rl_tokens r" "rl_tokens r \<le> rl_maxTokens r"
  shows "n \<le> rl_tokens r + rl_refillRate r * ((last (rl_lastRefill r # ts) - rl_lastRefill r) div 1000000000)"
  using assms
proof (induction ts arbitrary: r r' n)
  case (Cons now ts)
  let ?L = "last (now # ts)"
  obtain r1 ok where a: "Allow now (Some r) = (r1, ok)" by fastforce
  have now: "rl_lastRefill r \<le> now" "now \<le> ?L" using Cons.prems(2) by (auto simp: last_conv_nth sorted_iff_nth_mono)
  with Cons.prems(3) have "now - rl_lastRefill r < 2 ^ 22 * 1000000000" by simp
  from Allow_step [OF a now(1) this Cons.prems(4-7)] obtain s where
    s: "r1 = Some s" "rl_refillRate s = rl_refillRate r" "rl_maxTokens s = rl_maxTokens r"
      "0 \<le> rl_tokens s" "rl_tokens s \<le> rl_maxTokens r" "rl_lastRefill r \<le> rl_lastRefill s" "rl_lastRefill s \<le> now"
      "rl_tokens s + (if ok then 1 else 0)
         \<le> rl_tokens r + rl_refillRate r * ((rl_lastRefill s - rl_lastRefill r) div 1000000000)" .
  obtain r2 m where m: "allow_run ts (Some s) = (r2, m)" by fastforce
  have L: "last (rl_lastRefill s # ts) \<le> ?L" using s(7) now by (cases ts) auto
  have "sorted (rl_lastRefill s # ts)" using Cons.prems(2) s(7) by auto
  moreover have "last (rl_lastRefill s # ts) - rl_lastRefill s < 2 ^ 22 * 1000000000"
  proof -
    have "last (rl_lastRefill r # now # ts) = ?L" by simp
    with Cons.prems(3) L s(6) show ?thesis by linarith
  qed
  ultimately have "m \<le> rl_tokens s + rl_refillRate s * ((last (rl_lastRefill s # ts) - rl_lastRefill s) div 1000000000)"
    using Cons.prems(4,5) s by (intro Cons.IH [OF m]) (simp_all only:)
  also have "\<dots> \<le> rl_tokens s + rl_refillRate r * ((?L - rl_lastRefill s) div 1000000000)"
    using Cons.prems(4) L s(2) by (simp add: zdiv_mono1 del: last.simps)
  finally have "n \<le> rl_tokens r + rl_refillRate r * ((rl_lastRefill s - rl_lastRefill r) div 1000000000) +
      rl_refillRate r * ((?L - rl_lastRefill s) div 1000000000)"
    using Cons.prems(1) a s(1,8) m by (simp del: last.simps)
  also have "\<dots> \<le> rl_tokens r + rl_refillRate r * ((?L - rl_lastRefill r) div 1000000000)"
    using Cons.prems(4) div_add_le [of 1000000000 "rl_lastRefill s - rl_lastRefill r" "?L - rl_lastRefill s"]
    by (simp add: distrib_left [symmetric] del: last.simps)
  finally show ?case by simp
qed simp

text \<open>The bits of the features, and what the negotiation keeps of them.\<close>

lemma and_or_nonzero: "((x OR y) AND z \<noteq> 0) \<longleftrightarrow> (x AND z \<noteq> 0 \<or> y AND z \<noteq> (0 :: 'a::len word))"
  by (auto simp: bit_eq_iff bit_simps)

lemma feature_bits:
  "map_of featureNameToBit f = Some b \<Longrightarrow> map_of featureNameToBit g = Some c \<Longrightarrow> (b AND c \<noteq> 0) \<longleftrightarrow> f = g"
  by (auto simp: featureNameToBit_def featureBatching_def featureCompress_def featureSnapshotHash_def
      featurePrevSeq_def split: if_splits)

lemma negotiate_loop:
  assumes "negotiate_loop c req (nf, seen, valid, unknown) = (nf', valid', unknown')"
    and "\<forall>f b. map_of featureNameToBit f = Some b \<longrightarrow> (nf AND b \<noteq> 0) = (f \<in> set valid)"
    and "distinct valid" "set seen = set valid \<union> set unknown"
    and "\<forall>f \<in> set valid. map_of featureNameToBit f \<noteq> None \<and> (f = ''compress'' \<longrightarrow> c)"
    and "\<forall>f \<in> set unknown. map_of featureNameToBit f = None \<or> f = ''compress'' \<and> \<not> c"
  shows "(\<forall>f b. map_of featureNameToBit f = Some b \<longrightarrow> (nf' AND b \<noteq> 0) = (f \<in> set valid')) \<and> distinct valid' \<and>
    set valid' = set valid \<union> {f \<in> (\<lambda>r. ToLower (TrimSpace r)) ` set req. f \<noteq> '''' \<and>
        map_of featureNameToBit f \<noteq> None \<and> (f = ''compress'' \<longrightarrow> c)} \<and>
    set unknown' = set unknown \<union> {f \<in> (\<lambda>r. ToLower (TrimSpace r)) ` set req. f \<noteq> '''' \<and>
        (map_of featureNameToBit f = None \<or> f = ''compress'' \<and> \<not> c)}"
  using assms
proof (induction req arbitrary: nf seen valid unknown)
  case (Cons raw req)
  let ?f = "ToLower (TrimSpace raw)"
  show ?case
  proof (cases "?f = '''' \<or> ?f \<in> set seen")
    case True
    then have "negotiate_loop c req (nf, seen, valid, unknown) = (nf', valid', unknown')"
      using Cons.prems(1) by (auto simp: Let_def split: if_splits)
    from Cons.IH [OF this Cons.prems(2-6)] True Cons.prems(4-6) show ?thesis by auto
  next
    case new: False
    show ?thesis
    proof (cases "map_of featureNameToBit ?f = None \<or> ?f = ''compress'' \<and> \<not> c")
      case True
      then have "negotiate_loop c req (nf, ?f # seen, valid, unknown @ [?f]) = (nf', valid', unknown')"
        using Cons.prems(1) new by (auto simp: Let_def split: option.splits)
      from Cons.IH [OF this Cons.prems(2,3)] True new Cons.prems(4-6) show ?thesis by auto
    next
      case False
      then obtain b where b: "map_of featureNameToBit ?f = Some b" by auto
      then have "negotiate_loop c req (nf OR b, ?f # seen, valid @ [?f], unknown) = (nf', valid', unknown')"
        using Cons.prems(1) new False by (auto simp: Let_def)
      moreover have "\<forall>f d. map_of featureNameToBit f = Some d \<longrightarrow>
          ((nf OR b) AND d \<noteq> 0) = (f \<in> set (valid @ [?f]))"
      proof (intro allI impI)
        fix f d
        assume d: "map_of featureNameToBit f = Some d"
        show "((nf OR b) AND d \<noteq> 0) = (f \<in> set (valid @ [?f]))"
          using Cons.prems(2) [rule_format, OF d] feature_bits [OF b d] unfolding and_or_nonzero by auto
      qed
      ultimately have "(\<forall>f b. map_of featureNameToBit f = Some b \<longrightarrow> (nf' AND b \<noteq> 0) = (f \<in> set valid')) \<and>
          distinct valid' \<and>
          set valid' = set (valid @ [?f]) \<union> {f \<in> (\<lambda>r. ToLower (TrimSpace r)) ` set req. f \<noteq> '''' \<and>
            map_of featureNameToBit f \<noteq> None \<and> (f = ''compress'' \<longrightarrow> c)} \<and>
          set unknown' = set unknown \<union> {f \<in> (\<lambda>r. ToLower (TrimSpace r)) ` set req. f \<noteq> '''' \<and>
            (map_of featureNameToBit f = None \<or> f = ''compress'' \<and> \<not> c)}"
        using False new b Cons.prems(3-6) by (intro Cons.IH) auto
      then show ?thesis using False new b by auto
    qed
  qed
qed simp

lemma subset_four:
  "V \<subseteq> {a, b, c, d} \<Longrightarrow> (if a \<in> V then {a} else {}) \<union> ((if b \<in> V then {b} else {}) \<union>
     ((if c \<in> V then {c} else {}) \<union> (if d \<in> V then {d} else {}))) = V"
  by auto

section \<open>Properties\<close>

text \<open>
  Property C31. The token bucket: a limiter that starts full lets through at most its burst and,
  for each second since its start, its rate, whatever the times at which it is asked. The seconds are
  computed in floating point, which the bound on the lifetime of the limiter (48 days) keeps exact.
\<close>

theorem rate_limiter_bound:
  assumes "0 < burst" "0 < rate" "rate * 2 ^ 22 + burst \<le> MaxInt64"
    and "sorted (start # ts)" "last (start # ts) - start < 2 ^ 22 * 1000000000"
    and "allow_run ts (Some (NewRateLimiter burst rate start)) = (r', n)"
  shows "n \<le> burst + rate * ((last (start # ts) - start) div 1000000000)"
  using allow_run_bound [OF assms(6)] assms(1-5) by (simp add: NewRateLimiter_def Let_def)

theorem rate_limiter_bound_witness:
  "snd (allow_run [0, 5, 1000000007] (Some (NewRateLimiter 1 1 0))) \<le> 2"
  using rate_limiter_bound [of 1 1 0 "[0, 5, 1000000007]"
      "fst (allow_run [0, 5, 1000000007] (Some (NewRateLimiter 1 1 0)))"
      "snd (allow_run [0, 5, 1000000007] (Some (NewRateLimiter 1 1 0)))"]
  by simp

text \<open>
  Property C32. Negotiation accepts exactly the requested features that exist, compression only
  where the server allows it, and reports every other name; the bits it returns answer for the accepted
  features and for no others, both one by one and when they are listed for the acknowledgement.
\<close>

theorem negotiated_features:
  assumes "NegotiateFeatures req enabled = (nf, valid, unknown)"
  shows "set valid = {f \<in> (\<lambda>r. ToLower (TrimSpace r)) ` set req.
        f \<in> {''batching'', ''compress'', ''snapshot_hash'', ''prev_seq''} \<and> (f = ''compress'' \<longrightarrow> enabled)} \<and>
    set unknown = (\<lambda>r. ToLower (TrimSpace r)) ` set req - set valid - {''''} \<and>
    Has nf name = (ToLower (TrimSpace name) \<in> set valid) \<and>
    HasBatching nf = (''batching'' \<in> set valid) \<and> HasCompression nf = (''compress'' \<in> set valid) \<and>
    set (feature_List nf) = set valid \<and> distinct (feature_List nf)"
proof -
  have dom: "map_of featureNameToBit f \<noteq> None \<longleftrightarrow>
      f \<in> {''batching'', ''compress'', ''snapshot_hash'', ''prev_seq''}" for f
    by (simp add: featureNameToBit_def)
  have l: "(\<forall>f b. map_of featureNameToBit f = Some b \<longrightarrow> (nf AND b \<noteq> 0) = (f \<in> set valid)) \<and> distinct valid \<and>
    set valid = set [] \<union> {f \<in> (\<lambda>r. ToLower (TrimSpace r)) ` set req. f \<noteq> '''' \<and>
        map_of featureNameToBit f \<noteq> None \<and> (f = ''compress'' \<longrightarrow> enabled)} \<and>
    set unknown = set [] \<union> {f \<in> (\<lambda>r. ToLower (TrimSpace r)) ` set req. f \<noteq> '''' \<and>
        (map_of featureNameToBit f = None \<or> f = ''compress'' \<and> \<not> enabled)}"
    using assms by (intro negotiate_loop [of enabled req 0 "[]" "[]" "[]"]) (simp_all add: NegotiateFeatures_def)
  note bits = conjunct1 [OF l, rule_format]
  have b: "(nf AND featureBatching \<noteq> 0) = (''batching'' \<in> set valid)"
      "(nf AND featureCompress \<noteq> 0) = (''compress'' \<in> set valid)"
      "(nf AND featureSnapshotHash \<noteq> 0) = (''snapshot_hash'' \<in> set valid)"
      "(nf AND featurePrevSeq \<noteq> 0) = (''prev_seq'' \<in> set valid)"
    by (rule bits, simp add: featureNameToBit_def)+
  have sets: "set valid = {f \<in> (\<lambda>r. ToLower (TrimSpace r)) ` set req. f \<noteq> '''' \<and>
        map_of featureNameToBit f \<noteq> None \<and> (f = ''compress'' \<longrightarrow> enabled)}"
      "set unknown = {f \<in> (\<lambda>r. ToLower (TrimSpace r)) ` set req. f \<noteq> '''' \<and>
        (map_of featureNameToBit f = None \<or> f = ''compress'' \<and> \<not> enabled)}"
    using l by simp_all
  have valid: "set valid = {f \<in> (\<lambda>r. ToLower (TrimSpace r)) ` set req.
        f \<in> {''batching'', ''compress'', ''snapshot_hash'', ''prev_seq''} \<and> (f = ''compress'' \<longrightarrow> enabled)}"
    unfolding sets(1) dom by (rule Collect_cong) auto
  moreover have "set unknown = (\<lambda>r. ToLower (TrimSpace r)) ` set req - set valid - {''''}"
    unfolding sets by (rule set_eqI) (simp, metis)
  moreover have "Has nf name = (ToLower (TrimSpace name) \<in> set valid)"
  proof (cases "map_of featureNameToBit (ToLower (TrimSpace name))")
    case None
    then have "ToLower (TrimSpace name) \<notin> set valid" unfolding sets(1) by simp
    with None show ?thesis by (simp add: Has_def)
  qed (simp add: Has_def bits)
  moreover have "HasBatching nf = (''batching'' \<in> set valid)" "HasCompression nf = (''compress'' \<in> set valid)"
    using b by (simp_all add: HasBatching_def HasCompression_def)
  moreover have "set valid \<subseteq> {''batching'', ''compress'', ''snapshot_hash'', ''prev_seq''}"
    unfolding valid by (rule subsetI) simp
  then have "set (feature_List nf) = set valid" unfolding feature_List_def b
    by (simp only: set_append if_distrib [of set] set_simps subset_four)
  moreover have "distinct (feature_List nf)" unfolding feature_List_def by simp
  ultimately show ?thesis by (intro conjI)
qed

theorem negotiated_features_witness:
  "set (fst (snd (NegotiateFeatures ['' Batching'', ''compress'', ''x''] False))) = {''batching''}"
proof -
  have "NegotiateFeatures ['' Batching'', ''compress'', ''x''] False = (1, [''batching''], [''compress'', ''x''])"
    by code_simp
  from negotiated_features [OF this, of "''x''"] this show ?thesis by simp
qed

end
