(* ===== verification/Session_Protocol.thy ===== *)
theory Session_Protocol
  imports Session_Limits "HOL-Library.Product_Lexorder"
begin

text \<open>
  The websocket protocol of a delivery session (\<open>internal/actors/delivery/runtime/session_protocol.go\<close> and
  the pure helpers of \<open>session_commands.go\<close> and \<open>session_delivery.go\<close>): the frames, the mapping of
  problems to error frames, channel names, the resolution of a command to a subject, the ordering and
  paging of stored items, and the range query of \<open>internal/core/delivery/app/session_usecase.go\<close>.

  A frame is a value of one datatype: the constructor stands for the \<open>type\<close> field of its JSON form.
  The JSON bytes of a frame are represented by the frame, and their length is a parameter of the session.
  Enumerations that the protobuf compiler generates are their names.
\<close>

section \<open>Frames\<close>

record RangeItem =
  ri_Seq :: int
  ri_TsIngest :: int
  ri_Payload :: string

record clientCommand =
  cmd_Type :: string
  cmd_Op :: string
  cmd_Subject :: string
  cmd_StreamID :: string
  cmd_RequestID :: string
  cmd_Venue :: string
  cmd_Symbol :: string
  cmd_Channel :: string
  cmd_Aggregation :: string
  cmd_LastSeq :: int
  cmd_TsClient :: int
  cmd_Params :: string
  cmd_RequestedFeatures :: "string list"

record wsSnapshotFrame =
  sf_Subject :: string
  sf_ServerInstanceID :: string
  sf_Seq :: int
  sf_TsServer :: int
  sf_Venue :: string
  sf_Symbol :: string
  sf_Channel :: string
  sf_Payload :: string
  sf_SnapshotSource :: string
  sf_SnapshotSeq :: int
  sf_WatermarkSeq :: int
  sf_SnapshotHash :: string

record wsEventFrame =
  ef_Subject :: string
  ef_StreamID :: string
  ef_ServerInstanceID :: string
  ef_Seq :: int
  ef_PrevSeq :: int
  ef_TsIngest :: int
  ef_TsServer :: int
  ef_Venue :: string
  ef_Symbol :: string
  ef_Channel :: string
  ef_Payload :: string

record wsSignalPayload =
  sg_Kind :: string
  sg_Venue :: string
  sg_Instrument :: string
  sg_Timeframe :: string
  sg_SignalID :: string
  sg_RuleID :: string
  sg_RuleVersion :: string
  sg_Severity :: string
  sg_Confidence :: f64
  sg_Evidence :: string
  sg_EvidenceIDs :: "string list"
  sg_Explain :: "string list"
  sg_CorrelationIDs :: "string list"
  sg_Regime :: string
  sg_RegimeStrength :: f64
  sg_Reason :: string

record wsSignalFrame =
  gf_Subject :: string
  gf_Seq :: int
  gf_TsServer :: int
  gf_Payload :: wsSignalPayload

record wsBatchItem =
  bi_SeqDelta :: int
  bi_PrevSeqDelta :: int
  bi_TsServerDelta :: int
  bi_TsIngestDelta :: int
  bi_Payload :: string

record wsBatchFrame =
  bf_StreamID :: string
  bf_ServerInstanceID :: string
  bf_Venue :: string
  bf_Symbol :: string
  bf_Channel :: string
  bf_BaseSeq :: int
  bf_Count :: nat
  bf_TsServerBase :: int
  bf_TsIngestBase :: int
  bf_Events :: "wsBatchItem list"

record wsMetricsPayload =
  mp_WSDroppedTotal :: int
  mp_WSQueueLen :: nat
  mp_WSLagMs :: int
  mp_SerializeErrorsTotal :: int
  mp_ResyncTotal :: int
  mp_ResyncCount :: int
  mp_ActiveSubscriptions :: nat
  mp_MessagesOutTotal :: int
  mp_BackpressureLevel :: int
  mp_RecommendedAction :: string
  mp_QueueCapacity :: int
  mp_QueueHighWatermark :: nat
  mp_SubjectCount :: nat

record wsAckFrame =
  af_Op :: string
  af_RequestID :: string
  af_Subject :: string
  af_WatermarkSeq :: int
  af_SnapshotSeq :: int

record wsErrorFrame =
  er_Op :: string
  er_RequestID :: string
  er_Code :: ProblemCode
  er_ErrorCode :: string
  er_ActionHint :: string
  er_Message :: string

record wsRangeFrame =
  rf_Op :: string
  rf_RequestID :: string
  rf_Subject :: string
  rf_Page :: int
  rf_Limit :: int
  rf_Items :: "RangeItem list"
  rf_SnapshotSource :: string
  rf_WatermarkSeq :: int

record wsLastFrame =
  lf_Op :: string
  lf_RequestID :: string
  lf_Subject :: string
  lf_Item :: "RangeItem option"
  lf_SnapshotSource :: string

record wsHelloAckFrame =
  ha_RequestID :: string
  ha_NegotiatedFeatures :: "string list"
  ha_TsServer :: int
  ha_ClockSkewMs :: int

record wsPongFrame =
  pf_RequestID :: string
  pf_TsClient :: int
  pf_TsServer :: int

datatype ws_frame =
    HelloFrame int string wsHelloCapabilities
  | HelloAckFrame wsHelloAckFrame
  | AckFrame wsAckFrame
  | PongFrame wsPongFrame
  | SnapshotFrame wsSnapshotFrame
  | MetricsFrame wsMetricsPayload
  | EventFrame wsEventFrame
  | SignalFrame wsSignalFrame
  | BatchFrame wsBatchFrame
  | ErrorFrame wsErrorFrame
  | LastFrame wsLastFrame
  | RangeFrame wsRangeFrame
  | ProtoFrame string
  | PingFrame

section \<open>Error mapping\<close>

definition wsLimitTypeMaxSubscriptions :: string where
  "wsLimitTypeMaxSubscriptions = ''max_subscriptions_per_connection''"

definition wsLimitTypeMaxSymbols :: string where
  "wsLimitTypeMaxSymbols = ''max_symbols_per_connection''"

definition wsLimitTypeMaxFrameBytes :: string where
  "wsLimitTypeMaxFrameBytes = ''max_frame_bytes''"

definition wsLimitTypeOutboundQueue :: string where
  "wsLimitTypeOutboundQueue = ''outbound_queue_size''"

definition wsLimitTypeRateLimit :: string where
  "wsLimitTypeRateLimit = ''rate_limit''"

definition problemDetailString :: "problem \<Rightarrow> string \<Rightarrow> string" where
  "problemDetailString p key =
     (case map_of (pDetails p) key of Some (DStr v) \<Rightarrow> TrimSpace v | _ \<Rightarrow> '''')"

definition withWSLimitProblemDetails :: "problem \<Rightarrow> string \<Rightarrow> string \<Rightarrow> problem" where
  "withWSLimitProblemDetails p limitType actionHint =
     detailed (detailed p ''error_code'' (DStr (TrimSpace limitType))) ''action_hint'' (DStr actionHint)"

definition wsErrorMappingFromProblem :: "problem \<Rightarrow> string \<times> string" where
  "wsErrorMappingFromProblem p =
     (let overrideErrorCode = TrimSpace (problemDetailString p ''error_code'');
          overrideActionHint = TrimSpace (problemDetailString p ''action_hint'') in
      if overrideErrorCode \<noteq> '''' \<or> overrideActionHint \<noteq> '''' then
        (if overrideErrorCode = '''' then ''ERROR_CODE_UNSPECIFIED'' else overrideErrorCode,
         if overrideActionHint = '''' then ''ACTION_HINT_NONE'' else overrideActionHint)
      else case pCode p of
        ValidationFailed \<Rightarrow> (''ERROR_CODE_VALIDATION'', ''ACTION_HINT_NONE'')
      | InvalidArgument \<Rightarrow> (''ERROR_CODE_VALIDATION'', ''ACTION_HINT_NONE'')
      | NotFound \<Rightarrow>
          (''ERROR_CODE_NOT_FOUND'', if pRetryable p then ''ACTION_HINT_RETRY'' else ''ACTION_HINT_NONE'')
      | Unavailable \<Rightarrow> (''ERROR_CODE_RATE_LIMITED'', ''ACTION_HINT_RETRY'')
      | Conflict \<Rightarrow> (''ERROR_CODE_RESYNC_REQUIRED'', ''ACTION_HINT_RESYNC'')
      | IntegrityViolation \<Rightarrow> (''ERROR_CODE_RESYNC_REQUIRED'', ''ACTION_HINT_RESUBSCRIBE'')
      | Internal \<Rightarrow> (''ERROR_CODE_INTERNAL'', ''ACTION_HINT_RECONNECT'')
      | _ \<Rightarrow> (''ERROR_CODE_INTERNAL'', ''ACTION_HINT_RECONNECT''))"

section \<open>Channels\<close>

datatype Channel =
    CHANNEL_UNSPECIFIED | CHANNEL_TRADE | CHANNEL_BOOK_DELTA | CHANNEL_BOOK_SNAPSHOT | CHANNEL_TICKER
  | CHANNEL_FUNDING | CHANNEL_OPEN_INTEREST | CHANNEL_LIQUIDATION | CHANNEL_STATS | CHANNEL_CANDLE
  | CHANNEL_HEATMAP_SNAPSHOT | CHANNEL_VOLUME_PROFILE_SNAPSHOT | CHANNEL_EVIDENCE

definition channelEnumFromStreamType :: "string \<Rightarrow> Channel" where
  "channelEnumFromStreamType streamType =
     (case map_of
        [(''marketdata.trade'', CHANNEL_TRADE), (''marketdata.bookdelta'', CHANNEL_BOOK_DELTA),
         (''aggregation.snapshot'', CHANNEL_BOOK_SNAPSHOT), (''marketdata.markprice'', CHANNEL_TICKER),
         (''marketdata.open_interest'', CHANNEL_OPEN_INTEREST), (''aggregation.oi'', CHANNEL_OPEN_INTEREST),
         (''aggregation.stats'', CHANNEL_STATS), (''aggregation.bar_stats'', CHANNEL_STATS),
         (''aggregation.candle'', CHANNEL_CANDLE), (''aggregation.tape'', CHANNEL_UNSPECIFIED),
         (''marketdata.liquidation'', CHANNEL_LIQUIDATION),
         (''insights.heatmap_snapshot'', CHANNEL_HEATMAP_SNAPSHOT),
         (''insights.volume_profile_snapshot'', CHANNEL_VOLUME_PROFILE_SNAPSHOT),
         (''liquidity.evidence'', CHANNEL_EVIDENCE), (''evidence.microstructure_evidence'', CHANNEL_EVIDENCE),
         (''evidence.regime_evidence'', CHANNEL_EVIDENCE),
         (''insights.microstructure_evidence'', CHANNEL_EVIDENCE),
         (''insights.regime_evidence'', CHANNEL_EVIDENCE)]
        (ToLower (TrimSpace streamType)) of
        Some ch \<Rightarrow> ch | None \<Rightarrow> CHANNEL_UNSPECIFIED)"

definition channelName :: "Channel \<Rightarrow> string \<Rightarrow> string" where
  "channelName ch fallback =
     (case ch of
        CHANNEL_TRADE \<Rightarrow> ''trade''
      | CHANNEL_BOOK_DELTA \<Rightarrow> ''book_delta''
      | CHANNEL_BOOK_SNAPSHOT \<Rightarrow> ''book_snapshot''
      | CHANNEL_TICKER \<Rightarrow> ''ticker''
      | CHANNEL_FUNDING \<Rightarrow> ''funding''
      | CHANNEL_OPEN_INTEREST \<Rightarrow> ''open_interest''
      | CHANNEL_LIQUIDATION \<Rightarrow> ''liquidation''
      | CHANNEL_STATS \<Rightarrow> ''stats''
      | CHANNEL_CANDLE \<Rightarrow> ''candle''
      | CHANNEL_HEATMAP_SNAPSHOT \<Rightarrow> ''heatmap_snapshot''
      | CHANNEL_VOLUME_PROFILE_SNAPSHOT \<Rightarrow> ''volume_profile_snapshot''
      | CHANNEL_EVIDENCE \<Rightarrow> ''evidence''
      | _ \<Rightarrow>
          let ft = ToLower (TrimSpace fallback) in
          if ft = ''aggregation.tape'' \<or> ft = ''tape'' then ''tape''
          else if ft = ''aggregation.delta_volume'' \<or> ft = ''delta_volume'' then ''delta_volume''
          else if ft = ''aggregation.cvd'' \<or> ft = ''cvd'' then ''cvd''
          else if ft = ''aggregation.bar_stats'' \<or> ft = ''bar_stats'' then ''bar_stats''
          else if TrimSpace fallback = '''' then ''unknown''
          else ToLower (TrimSpace fallback))"

section \<open>Commands and subjects\<close>

definition canonicalStreamTypeForCommandChannel :: "string \<Rightarrow> string" where
  "canonicalStreamTypeForCommandChannel channel =
     (case map_of
        [(''trade'', ''marketdata.trade''), (''marketdata.trade'', ''marketdata.trade''),
         (''book_delta'', ''marketdata.bookdelta''), (''marketdata.bookdelta'', ''marketdata.bookdelta''),
         (''book_snapshot'', ''aggregation.snapshot''), (''aggregation.snapshot'', ''aggregation.snapshot''),
         (''ticker'', ''marketdata.markprice''), (''marketdata.markprice'', ''marketdata.markprice''),
         (''open_interest'', ''marketdata.open_interest''),
         (''marketdata.open_interest'', ''marketdata.open_interest''),
         (''oi'', ''aggregation.oi''), (''aggregation.oi'', ''aggregation.oi''),
         (''delta_volume'', ''aggregation.delta_volume''),
         (''aggregation.delta_volume'', ''aggregation.delta_volume''),
         (''cvd'', ''aggregation.cvd''), (''aggregation.cvd'', ''aggregation.cvd''),
         (''bar_stats'', ''aggregation.bar_stats''), (''aggregation.bar_stats'', ''aggregation.bar_stats''),
         (''liquidation'', ''marketdata.liquidation''), (''marketdata.liquidation'', ''marketdata.liquidation''),
         (''stats'', ''aggregation.stats''), (''aggregation.stats'', ''aggregation.stats''),
         (''candle'', ''aggregation.candle''), (''aggregation.candle'', ''aggregation.candle''),
         (''tape'', ''aggregation.tape''), (''aggregation.tape'', ''aggregation.tape''),
         (''heatmap_snapshot'', ''insights.heatmap_snapshot''),
         (''insights.heatmap_snapshot'', ''insights.heatmap_snapshot''),
         (''volume_profile_snapshot'', ''insights.volume_profile_snapshot''),
         (''insights.volume_profile_snapshot'', ''insights.volume_profile_snapshot''),
         (''evidence'', ''liquidity.evidence''), (''liquidity.evidence'', ''liquidity.evidence''),
         (''signal'', ''signal''), (''signal.event'', ''signal''),
         (''strategy_intent'', ''strategy.intent''), (''strategy.intent'', ''strategy.intent''),
         (''execution_event'', ''execution.event''), (''execution.event'', ''execution.event''),
         (''portfolio_state'', ''portfolio.state''), (''portfolio.state'', ''portfolio.state'')]
        (ToLower (TrimSpace channel)) of
        Some streamType \<Rightarrow> streamType | None \<Rightarrow> channel)"

definition rejectLegacyCutoverSubject :: "Subject \<Rightarrow> problem option" where
  "rejectLegacyCutoverSubject subject =
     (let streamType = ToLower (TrimSpace (sub_StreamType subject)) in
      if streamType = ''insights.microstructure_evidence'' then
        Some (New ValidationFailed ''legacy subject \"insights.microstructure_evidence\" removed; use \"evidence.microstructure_evidence\" or \"liquidity.evidence\"'')
      else if streamType = ''insights.regime_evidence'' then
        Some (New ValidationFailed ''legacy subject \"insights.regime_evidence\" removed; use \"evidence.regime_evidence\"'')
      else if streamType = ''signal.composite'' then
        Some (New ValidationFailed ''legacy stream type \"signal.composite\" removed; use \"signal/<kind>/<venue>/<symbol>/<timeframe>\"'')
      else if IsSignal subject \<and> ToLower (TrimSpace (sub_Kind subject)) = ''composite'' then
        Some (New ValidationFailed ''legacy signal kind \"composite\" removed; use \"signal/<kind>/<venue>/<symbol>/<timeframe>\"'')
      else None)"

definition checked_subject :: "Subject result \<Rightarrow> Subject result" where
  "checked_subject res =
     (case res of
        Inl p \<Rightarrow> Inl p
      | Inr subject \<Rightarrow>
          (case rejectLegacyCutoverSubject subject of Some p \<Rightarrow> Inl p | None \<Rightarrow> Inr subject))"

definition resolveCommandSubject :: "clientCommand \<Rightarrow> Subject result" where
  "resolveCommandSubject cmd =
     (if TrimSpace (cmd_Subject cmd) \<noteq> '''' then checked_subject (ParseSubject (TrimSpace (cmd_Subject cmd)))
      else if TrimSpace (cmd_StreamID cmd) \<noteq> '''' then
        checked_subject (ParseSubject (TrimSpace (cmd_StreamID cmd)))
      else if TrimSpace (cmd_Venue cmd) = '''' \<or> TrimSpace (cmd_Symbol cmd) = '''' \<or>
              TrimSpace (cmd_Channel cmd) = '''' then
        Inl (Newf ValidationFailed ''%s requires stream_id or (venue,symbol,channel)'')
      else
        let channel = canonicalStreamTypeForCommandChannel (ToLower (TrimSpace (cmd_Channel cmd)));
            agg = TrimSpace (cmd_Aggregation cmd);
            timeframe = (if agg \<noteq> '''' then ToLower agg else ''raw'')
        in checked_subject (NewSubject channel (cmd_Venue cmd) (cmd_Symbol cmd) timeframe))"

section \<open>Stored items\<close>

definition maxQueryLimit :: int where "maxQueryLimit = 20000"
definition defaultRangeLimit :: int where "defaultRangeLimit = 100"
definition maxLimit :: int where "maxLimit = 1000"
definition maxPage :: int where "maxPage = 100"
definition maxResponseItems :: nat where "maxResponseItems = 1000"
definition subscribeBackfillLimit :: int where "subscribeBackfillLimit = 64"

record getRangeParams =
  gp_FromMs :: int
  gp_ToMs :: int
  gp_Limit :: int
  gp_Page :: int

text \<open>The last page is the newest: page 1 ends at the last item, page 2 before page 1.\<close>

definition paginateTail :: "'a list \<Rightarrow> int \<Rightarrow> int \<Rightarrow> 'a list" where
  "paginateTail items page limit =
     (if limit \<le> 0 then items
      else
        let page = (if page \<le> 0 then 1 else page);
            end = int (length items) - (page - 1) * limit in
        if end \<le> 0 then []
        else
          let start = (if end - limit < 0 then 0 else end - limit)
          in drop (nat start) (take (nat end) items))"

text \<open>A stable sort by sequence number, then ingest time, then the bytes of the payload.\<close>

definition sortRangeItems :: "RangeItem list \<Rightarrow> RangeItem list" where
  "sortRangeItems items = sort_key (\<lambda>i. (ri_Seq i, ri_TsIngest i, ri_Payload i)) items"

definition hotSnapshotRangeItem :: "(string \<Rightarrow> (int \<times> int) option) \<Rightarrow> string \<Rightarrow> RangeItem" where
  "hotSnapshotRangeItem snapshotMeta raw =
     (let item = \<lparr>ri_Seq = 0, ri_TsIngest = 0, ri_Payload = raw\<rparr> in
      case snapshotMeta raw of
        None \<Rightarrow> item
      | Some (seqLast, windowEndTs) \<Rightarrow>
          item\<lparr>ri_Seq := (if seqLast > 0 then seqLast else 0),
               ri_TsIngest := (if windowEndTs > 0 then windowEndTs else 0)\<rparr>)"

definition subjectWithoutMarketTypeSuffix :: "Subject \<Rightarrow> Subject option" where
  "subjectWithoutMarketTypeSuffix subject =
     (let symbol = sub_Symbol subject in
      if CHR '':'' \<notin> set symbol then None
      else
        let base = NormalizeSymbol (takeWhile (\<lambda>c. c \<noteq> CHR '':'') symbol) in
        if base = '''' \<or> base = symbol then None
        else Some (subject\<lparr>sub_Symbol := base\<rparr>))"

type_synonym range_store = "Subject \<Rightarrow> int \<Rightarrow> int \<Rightarrow> int \<Rightarrow> RangeItem list result"

definition service_GetRange ::
  "range_store option \<Rightarrow> string \<Rightarrow> int \<Rightarrow> int \<Rightarrow> int \<Rightarrow> RangeItem list result" where
  "service_GetRange rangeStore subjectRaw fromMs toMs limit =
     (if limit < 0 then Inl (New ValidationFailed ''limit must be >= 0'')
      else case ParseSubject subjectRaw of
        Inl p \<Rightarrow> Inl p
      | Inr subject \<Rightarrow>
          (case rangeStore of
             None \<Rightarrow> Inl (New NotFound ''range store unavailable'')
           | Some lookup \<Rightarrow>
               (case lookup subject fromMs toMs limit of
                  Inl p \<Rightarrow> Inl p
                | Inr items \<Rightarrow>
                    if length items = 0 then
                      (case subjectWithoutMarketTypeSuffix subject of
                         None \<Rightarrow> Inr items
                       | Some alias \<Rightarrow> lookup alias fromMs toMs limit)
                    else Inr items)))"

section \<open>Signal payloads\<close>

fun norm_loop :: "string list \<Rightarrow> string list \<Rightarrow> string list" where
  "norm_loop [] seen = []"
| "norm_loop (x # xs) seen =
     (let v = TrimSpace x in
      if v = '''' then norm_loop xs seen
      else if v \<in> set seen then norm_loop xs seen
      else v # norm_loop xs (v # seen))"

definition normalizedStringList :: "string list \<Rightarrow> string list" where
  "normalizedStringList xs = norm_loop xs []"

record watermark =
  wm_Venue :: string
  wm_Symbol :: string
  wm_SeqStart :: int
  wm_SeqEnd :: int

definition evidenceIDsFromWatermark :: "watermark list \<Rightarrow> string list" where
  "evidenceIDsFromWatermark ws =
     normalizedStringList
       (concat (map (\<lambda>w.
          let venue = ToUpper (TrimSpace (wm_Venue w)); symbol = ToUpper (TrimSpace (wm_Symbol w)) in
          if venue = '''' \<or> symbol = '''' then []
          else if wm_SeqStart w \<le> 0 \<or> wm_SeqEnd w \<le> 0 then []
          else if wm_SeqEnd w < wm_SeqStart w then []
          else [venue @ ''|'' @ symbol @ ''|'' @ Itoa (wm_SeqStart w) @ ''-'' @ Itoa (wm_SeqEnd w)]) ws))"

record signal_in =
  in_Kind :: string
  in_Type :: string
  in_Venue :: string
  in_Instrument :: string
  in_Symbol :: string
  in_Timeframe :: string
  in_SignalID :: string
  in_RuleID :: string
  in_RuleVersion :: string
  in_Severity :: string
  in_Confidence :: f64
  in_Evidence :: string
  in_Features :: string
  in_EvidenceIDs :: "string list"
  in_Explain :: "string list"
  in_CorrelationIDs :: "string list"
  in_CorrelationID :: string
  in_InputWatermark :: "watermark list"
  in_RegimeKind :: string
  in_RegimeStrength :: f64
  in_Reason :: string
  in_Explanation :: string

definition prepareSignalFramePayload :: "(string \<Rightarrow> string + signal_in) \<Rightarrow> string \<Rightarrow> wsSignalPayload result" where
  "prepareSignalFramePayload decode payload =
     (case decode payload of
        Inl err \<Rightarrow> Inl (Wrap err Internal ''signal payload decode failed'')
      | Inr s \<Rightarrow>
          let kind = (if TrimSpace (in_Kind s) = '''' then TrimSpace (in_Type s) else TrimSpace (in_Kind s));
              instrument = (if TrimSpace (in_Instrument s) = '''' then TrimSpace (in_Symbol s)
                            else TrimSpace (in_Instrument s));
              evidence = (if length (in_Evidence s) = 0 then in_Features s else in_Evidence s);
              evidence = (if length evidence = 0 then ''[]'' else evidence);
              explain = normalizedStringList (in_Explain s);
              reason = TrimSpace (in_Reason s);
              reason = (if reason = '''' then TrimSpace (in_Explanation s) else reason);
              reason = (if reason = '''' \<and> length explain > 0 then explain ! 0 else reason);
              correlationIDs = normalizedStringList (in_CorrelationIDs s @ [in_CorrelationID s]);
              evidenceIDs = normalizedStringList (in_EvidenceIDs s);
              evidenceIDs = (if length evidenceIDs = 0 then evidenceIDsFromWatermark (in_InputWatermark s)
                             else evidenceIDs)
          in Inr
            \<lparr>sg_Kind = ToLower (TrimSpace kind), sg_Venue = ToLower (TrimSpace (in_Venue s)),
             sg_Instrument = instrument, sg_Timeframe = ToLower (TrimSpace (in_Timeframe s)),
             sg_SignalID = TrimSpace (in_SignalID s), sg_RuleID = TrimSpace (in_RuleID s),
             sg_RuleVersion = TrimSpace (in_RuleVersion s), sg_Severity = ToLower (TrimSpace (in_Severity s)),
             sg_Confidence = in_Confidence s, sg_Evidence = evidence, sg_EvidenceIDs = evidenceIDs,
             sg_Explain = explain, sg_CorrelationIDs = correlationIDs,
             sg_Regime = ToLower (TrimSpace (in_RegimeKind s)), sg_RegimeStrength = in_RegimeStrength s,
             sg_Reason = reason\<rparr>)"

section \<open>Pages\<close>

lemma sublist_page:
  fixes items :: "'a list"
  assumes "1 \<le> page" "0 < limit"
  defines "stop \<equiv> nat (int (length items) - (page - 1) * limit)"
  shows "paginateTail items page limit = drop (stop - nat limit) (take stop items)"
proof (cases "int (length items) - (page - 1) * limit \<le> 0")
  case True
  then show ?thesis using assms by (simp add: paginateTail_def)
next
  case False
  then have "nat (if int (length items) - (page - 1) * limit - limit < 0 then 0
      else int (length items) - (page - 1) * limit - limit) = stop - nat limit"
    using assms(2) by (auto simp: stop_def nat_diff_distrib)
  then show ?thesis using False assms by (simp add: paginateTail_def Let_def)
qed

text \<open>The pages up to \<open>n\<close>, oldest first, are the tail of the items.\<close>

lemma pages_tail:
  assumes "0 < limit"
  shows "concat (map (\<lambda>p. paginateTail items (int p) limit) (rev [1..<Suc n])) = drop (length items - n * nat limit) items"
proof (induction n)
  case 0
  then show ?case by simp
next
  case (Suc n)
  let ?stop = "length items - n * nat limit"
  have s: "nat (int (length items) - (int (Suc n) - 1) * limit) = ?stop"
    using assms by (simp add: nat_diff_distrib' nat_mult_distrib)
  have "concat (map (\<lambda>p. paginateTail items (int p) limit) (rev [1..<Suc (Suc n)])) =
      paginateTail items (int (Suc n)) limit @ drop ?stop items"
    using Suc by (simp add: rev_append del: upt_Suc) (simp add: upt_Suc)
  also have "paginateTail items (int (Suc n)) limit = drop (?stop - nat limit) (take ?stop items)"
    using sublist_page [of "int (Suc n)" limit items] assms s by simp
  also have "\<dots> @ drop ?stop items = drop (?stop - nat limit) (take ?stop items @ drop ?stop items)"
    unfolding drop_append by simp
  also have "\<dots> = drop (length items - Suc n * nat limit) items"
    unfolding append_take_drop_id by (simp add: algebra_simps)
  finally show ?case .
qed



end
