(* ===== verification/Snapshot_Cache.thy ===== *)
theory Snapshot_Cache
  imports Session_Protocol
begin

text \<open>
  The cache of encoded snapshot frames that the sessions of a process share
  (\<open>internal/actors/delivery/runtime/snapshot_wire_cache.go\<close>): a least recently used list with an
  expiry. As in the bounded map, the Go map is an association list with distinct keys and the linked
  list is the list of its keys, front first. The bytes of an entry are a value of any type with their
  length; here they are the frame that they encode.
\<close>

section \<open>Definitions\<close>

record 'p snapshotWireCacheEntry =
  we_payload :: 'p
  we_expiresAt :: int

record 'p SnapshotWireCache =
  wc_capacity :: int
  wc_ttl :: int
  wc_items :: "(string \<times> 'p snapshotWireCacheEntry) list"
  wc_lru :: "string list"

definition NewSnapshotWireCache :: "int \<Rightarrow> int \<Rightarrow> 'p SnapshotWireCache" where
  "NewSnapshotWireCache capacity ttl =
     \<lparr>wc_capacity = (if capacity \<le> 0 then 256 else capacity),
      wc_ttl = (if ttl \<le> 0 then 2000000000 else ttl), wc_items = [], wc_lru = []\<rparr>"

definition snapshotWireCacheKey :: "Subject \<Rightarrow> nat \<Rightarrow> string" where
  "snapshotWireCacheKey subject depth =
     ToLower (TrimSpace (sub_Venue subject)) @ ''|'' @ ToUpper (TrimSpace (sub_Symbol subject)) @ ''|'' @
     ToLower (TrimSpace (sub_StreamType subject)) @ ''|'' @ Itoa (int depth)"

definition deleteElemLocked :: "string \<Rightarrow> 'p SnapshotWireCache \<Rightarrow> 'p SnapshotWireCache" where
  "deleteElemLocked key c = c\<lparr>wc_items := AList.delete key (wc_items c), wc_lru := remove1 key (wc_lru c)\<rparr>"

definition wc_Get :: "string \<Rightarrow> int \<Rightarrow> 'p SnapshotWireCache \<Rightarrow> 'p SnapshotWireCache \<times> 'p option" where
  "wc_Get key now c =
     (if TrimSpace key = '''' then (c, None)
      else case map_of (wc_items c) key of
        None \<Rightarrow> (c, None)
      | Some entry \<Rightarrow>
          if we_expiresAt entry \<noteq> zeroTime \<and> now > we_expiresAt entry then (deleteElemLocked key c, None)
          else (c\<lparr>wc_lru := MoveToFront key (wc_lru c)\<rparr>, Some (we_payload entry)))"

text \<open>The loop that makes room; a full map has a last element, so the guard on the list never stops it.\<close>

function (sequential) wc_trim :: "'p SnapshotWireCache \<Rightarrow> 'p SnapshotWireCache" where
  "wc_trim c =
     (if int (length (wc_items c)) > wc_capacity c \<and> wc_lru c \<noteq> []
      then wc_trim (deleteElemLocked (last (wc_lru c)) c) else c)"
  by pat_completeness auto

termination
  by (relation "measure (\<lambda>c. length (wc_lru c))") (auto simp: deleteElemLocked_def length_remove1)

declare wc_trim.simps [simp del]

definition wc_Set :: "string \<Rightarrow> 'p \<Rightarrow> int \<Rightarrow> int \<Rightarrow> 'p SnapshotWireCache \<Rightarrow> 'p SnapshotWireCache" where
  "wc_Set key payload payloadLen now c =
     (if TrimSpace key = '''' \<or> payloadLen = 0 then c
      else
        let entry = \<lparr>we_payload = payload, we_expiresAt = now + wc_ttl c\<rparr> in
        case map_of (wc_items c) key of
          Some _ \<Rightarrow> c\<lparr>wc_items := AList.update key entry (wc_items c), wc_lru := MoveToFront key (wc_lru c)\<rparr>
        | None \<Rightarrow> wc_trim (c\<lparr>wc_items := AList.update key entry (wc_items c), wc_lru := key # wc_lru c\<rparr>))"

section \<open>Specification\<close>

definition wc_inv :: "'p SnapshotWireCache \<Rightarrow> bool" where
  "wc_inv c \<longleftrightarrow> 1 \<le> wc_capacity c \<and> 0 < wc_ttl c \<and> distinct (map fst (wc_items c)) \<and> distinct (wc_lru c) \<and>
     set (wc_lru c) = fst ` set (wc_items c) \<and> int (length (wc_items c)) \<le> wc_capacity c"

definition wc_live :: "'p SnapshotWireCache \<Rightarrow> int \<Rightarrow> string \<Rightarrow> 'p option" where
  "wc_live c now key =
     (if TrimSpace key = '''' then None
      else case map_of (wc_items c) key of
        None \<Rightarrow> None
      | Some entry \<Rightarrow>
          if we_expiresAt entry \<noteq> zeroTime \<and> now > we_expiresAt entry then None else Some (we_payload entry))"

text \<open>The cache with one more entry, before it is trimmed.\<close>

definition wc_added :: "string \<Rightarrow> 'p snapshotWireCacheEntry \<Rightarrow> 'p SnapshotWireCache \<Rightarrow> 'p SnapshotWireCache" where
  "wc_added key entry c = c\<lparr>wc_items := wc_items c @ [(key, entry)], wc_lru := key # wc_lru c\<rparr>"

section \<open>Lemmas\<close>

lemma wc_delete_inv:
  assumes "distinct (map fst (wc_items c))" "distinct (wc_lru c)" "set (wc_lru c) = fst ` set (wc_items c)"
  shows "distinct (map fst (wc_items (deleteElemLocked k c)))" "distinct (wc_lru (deleteElemLocked k c))"
    "set (wc_lru (deleteElemLocked k c)) = fst ` set (wc_items (deleteElemLocked k c))"
  using assms by (auto simp: deleteElemLocked_def delete_filter distinct_map_filter)

lemma wc_length: "wc_inv c \<Longrightarrow> length (wc_lru c) = length (wc_items c)"
  unfolding wc_inv_def by (metis distinct_card length_map list.set_map)

lemma wc_trim_once:
  assumes "int (length (wc_items c)) \<le> wc_capacity c + 1" "length (wc_lru c) = length (wc_items c)"
    "set (wc_lru c) = fst ` set (wc_items c)" "distinct (map fst (wc_items c))" "1 \<le> wc_capacity c"
  shows "wc_trim c = (if int (length (wc_items c)) = wc_capacity c + 1 then deleteElemLocked (last (wc_lru c)) c else c)"
proof (cases "int (length (wc_items c)) = wc_capacity c + 1")
  case True
  then have ne: "wc_lru c \<noteq> []" using assms(2,5) by auto
  let ?d = "deleteElemLocked (last (wc_lru c)) c"
  have "last (wc_lru c) \<in> fst ` set (wc_items c)" using ne assms(3) last_in_set by metis
  then have "length (wc_items ?d) < length (wc_items c)"
    by (auto simp: deleteElemLocked_def delete_filter intro!: length_filter_less)
  then have "wc_trim ?d = ?d" using True by (subst wc_trim.simps) (simp add: deleteElemLocked_def)
  then show ?thesis using True ne by (subst wc_trim.simps) simp
next
  case False
  then show ?thesis using assms(1) by (subst wc_trim.simps) simp
qed

lemma wc_Get_inv: "wc_inv c \<Longrightarrow> wc_inv (fst (wc_Get key now c))"
proof -
  assume inv: "wc_inv c"
  have "length (AList.delete key xs) \<le> length xs" for xs :: "(string \<times> 'a snapshotWireCacheEntry) list"
    by (simp add: delete_filter)
  then have "wc_inv (deleteElemLocked key c)"
    using inv wc_delete_inv [of c key] by (auto simp: wc_inv_def intro: order_trans) (auto simp: deleteElemLocked_def intro: order_trans [rotated])
  moreover have "wc_inv (c\<lparr>wc_lru := MoveToFront key (wc_lru c)\<rparr>)" if "map_of (wc_items c) key \<noteq> None"
  proof -
    have "key \<in> set (wc_lru c)" using that inv by (force simp: wc_inv_def dest: map_of_SomeD)
    then show ?thesis using inv by (auto simp: wc_inv_def set_MoveToFront distinct_MoveToFront)
  qed
  ultimately show ?thesis using inv by (auto simp: wc_Get_def split: option.split)
qed

lemma wc_Get_result: "snd (wc_Get key now c) = wc_live c now key"
  by (simp add: wc_Get_def wc_live_def split: option.split)

lemma wc_Get_live: "now \<le> t \<Longrightarrow> wc_live (fst (wc_Get key now c)) t key' = wc_live c t key'"
  by (auto simp: wc_Get_def wc_live_def deleteElemLocked_def delete_conv' split: option.split)

lemma update_new: "map_of al k = None \<Longrightarrow> AList.update k v al = al @ [(k, v)]"
  by (induction al) (auto split: if_splits)

lemma wc_added_facts:
  assumes inv: "wc_inv c" and new: "map_of (wc_items c) key = None"
  shows "key \<notin> set (wc_lru c)" "set (wc_lru (wc_added key entry c)) = fst ` set (wc_items (wc_added key entry c))"
    "distinct (map fst (wc_items (wc_added key entry c)))" "distinct (wc_lru (wc_added key entry c))"
  using assms by (auto simp: wc_inv_def wc_added_def map_of_eq_None_iff)

text \<open>A new entry pushes out at most the entry used longest ago, and never itself.\<close>

lemma wc_Set_new:
  assumes inv: "wc_inv c" and key: "TrimSpace key \<noteq> ''''" "map_of (wc_items c) key = None" and len: "payloadLen \<noteq> 0"
  shows "\<exists>entry. entry = \<lparr>we_payload = payload, we_expiresAt = now + wc_ttl c\<rparr> \<and>
    wc_Set key payload payloadLen now c =
      (if int (length (wc_items c)) = wc_capacity c then deleteElemLocked (last (wc_lru c)) (wc_added key entry c)
       else wc_added key entry c)"
proof -
  let ?entry = "\<lparr>we_payload = payload, we_expiresAt = now + wc_ttl c\<rparr>"
  let ?c = "wc_added key ?entry c"
  have "wc_Set key payload payloadLen now c = wc_trim ?c"
    using key len by (simp add: wc_Set_def Let_def wc_added_def update_new)
  also have "\<dots> = (if int (length (wc_items ?c)) = wc_capacity ?c + 1 then deleteElemLocked (last (wc_lru ?c)) ?c else ?c)"
    by (rule wc_trim_once)
      (use inv wc_length [OF inv] wc_added_facts [OF inv key(2)] in \<open>simp_all add: wc_inv_def wc_added_def\<close>)
  also have "int (length (wc_items ?c)) = wc_capacity ?c + 1 \<longleftrightarrow> int (length (wc_items c)) = wc_capacity c"
    by (auto simp: wc_added_def)
  also have "(if int (length (wc_items c)) = wc_capacity c then deleteElemLocked (last (wc_lru ?c)) ?c else ?c) =
      (if int (length (wc_items c)) = wc_capacity c then deleteElemLocked (last (wc_lru c)) ?c else ?c)"
    using wc_length [OF inv] inv by (auto simp: wc_added_def wc_inv_def)
  finally show ?thesis by blast
qed

lemma wc_Set_old:
  assumes "TrimSpace key \<noteq> ''''" "map_of (wc_items c) key \<noteq> None" "payloadLen \<noteq> 0"
  shows "wc_Set key payload payloadLen now c =
    c\<lparr>wc_items := AList.update key \<lparr>we_payload = payload, we_expiresAt = now + wc_ttl c\<rparr> (wc_items c),
      wc_lru := MoveToFront key (wc_lru c)\<rparr>"
  using assms by (auto simp: wc_Set_def Let_def)

lemma wc_last: "wc_inv c \<Longrightarrow> int (length (wc_items c)) = wc_capacity c \<Longrightarrow> last (wc_lru c) \<in> fst ` set (wc_items c)"
  using wc_length [of c] last_in_set [of "wc_lru c"] unfolding wc_inv_def by (cases "wc_lru c = []") auto

lemma map_of_added:
  "map_of (wc_items c) key = None \<Longrightarrow>
   map_of (wc_items (wc_added key entry c)) k = (if k = key then Some entry else map_of (wc_items c) k)"
  by (auto simp: wc_added_def map_add_def split: option.split)

lemma items_delete: "map_of (wc_items (deleteElemLocked k c)) k' = (if k' = k then None else map_of (wc_items c) k')"
  by (simp add: deleteElemLocked_def delete_conv')

lemma wc_Set_inv:
  assumes inv: "wc_inv c"
  shows "wc_inv (wc_Set key payload payloadLen now c)"
proof (cases "TrimSpace key = '''' \<or> payloadLen = 0")
  case True
  then show ?thesis using inv by (auto simp: wc_Set_def)
next
  case False
  then have ok: "TrimSpace key \<noteq> ''''" "payloadLen \<noteq> 0" by simp_all
  show ?thesis
  proof (cases "map_of (wc_items c) key")
    case (Some e)
    then have k: "key \<in> fst ` set (wc_items c)" by (force dest: map_of_SomeD)
    then have "key \<in> set (wc_lru c)" using inv by (simp add: wc_inv_def)
    moreover have "length (AList.update key v (wc_items c)) = length (wc_items c)" for v
      using k by (simp add: update_length)
    ultimately show ?thesis
      using inv k unfolding wc_Set_old [OF ok(1) _ ok(2), of c, unfolded Some, simplified]
      by (auto simp: wc_inv_def set_MoveToFront distinct_MoveToFront distinct_update dom_update)
  next
    case None
    obtain entry where e: "wc_Set key payload payloadLen now c =
      (if int (length (wc_items c)) = wc_capacity c then deleteElemLocked (last (wc_lru c)) (wc_added key entry c)
       else wc_added key entry c)" using wc_Set_new [OF inv ok(1) None ok(2)] by blast
    note facts = wc_added_facts [OF inv None]
    show ?thesis
    proof (cases "int (length (wc_items c)) = wc_capacity c")
      case True
      have "length (AList.delete (last (wc_lru c)) (wc_items c @ [(key, entry)])) < length (wc_items c @ [(key, entry)])"
      proof -
        obtain b where "(last (wc_lru c), b) \<in> set (wc_items c)" using wc_last [OF inv True] by auto
        then have "(last (wc_lru c), b) \<in> set (wc_items c @ [(key, entry)])" by simp
        then show ?thesis unfolding delete_filter by (rule length_filter_less) simp
      qed
      then show ?thesis
        using True e wc_delete_inv [OF facts(3,4,2), of "last (wc_lru c)"] inv
        by (auto simp: wc_inv_def) (auto simp: deleteElemLocked_def wc_added_def)
    next
      case False
      then show ?thesis using e facts inv by (auto simp: wc_inv_def wc_added_def)
    qed
  qed
qed

lemma wc_Set_same:
  assumes "wc_inv c" "TrimSpace key \<noteq> ''''" "payloadLen \<noteq> 0" "now \<le> t" "t \<le> now + wc_ttl c"
  shows "wc_live (wc_Set key payload payloadLen now c) t key = Some payload"
proof (cases "map_of (wc_items c) key")
  case (Some e)
  then show ?thesis
    using assms wc_Set_old [of key c payloadLen payload now] by (simp add: wc_live_def update_conv')
next
  case None
  have "last (wc_lru c) \<noteq> key" if "int (length (wc_items c)) = wc_capacity c"
    using wc_last [OF assms(1) that] None by (metis map_of_eq_None_iff)
  then show ?thesis
    using wc_Set_new [OF assms(1,2) None assms(3), of payload now] assms None
    by (auto simp: wc_live_def map_of_added items_delete)
qed

lemma wc_Set_other:
  assumes "wc_inv c" "key' \<noteq> key"
  shows "wc_live (wc_Set key payload payloadLen now c) t key' \<in> {None, wc_live c t key'}"
proof (cases "TrimSpace key = '''' \<or> payloadLen = 0")
  case True
  then show ?thesis by (auto simp: wc_Set_def)
next
  case False
  then have ok: "TrimSpace key \<noteq> ''''" "payloadLen \<noteq> 0" by simp_all
  show ?thesis
  proof (cases "map_of (wc_items c) key")
    case (Some e)
    then show ?thesis
      using ok wc_Set_old [of key c payloadLen payload now] assms(2) by (simp add: wc_live_def update_conv')
  next
    case None
    then show ?thesis
      using wc_Set_new [OF assms(1) ok(1) None ok(2), of payload now] assms(2)
      by (auto simp: wc_live_def map_of_added items_delete)
  qed
qed

lemma wc_Set_now:
  assumes "wc_inv c" "TrimSpace key \<noteq> ''''" "payloadLen \<noteq> 0"
  shows "wc_live (wc_Set key payload payloadLen now c) now key = Some payload"
  using wc_Set_same [OF assms order.refl] assms(1) by (simp add: wc_inv_def)

lemma wc_new_inv: "wc_inv (NewSnapshotWireCache capacity ttl)"
  by (simp add: wc_inv_def NewSnapshotWireCache_def)

text \<open>A length of one stands for every length of a payload that is not empty.\<close>

lemma wc_Set_len: "payloadLen \<noteq> 0 \<Longrightarrow> wc_Set key payload payloadLen now c = wc_Set key payload 1 now c"
  by (simp add: wc_Set_def)

interpretation wire_cache: cache "\<lambda>key. TrimSpace key \<noteq> ''''" "\<lambda>now key c. wc_Get key now c"
  "\<lambda>now key payload c. wc_Set key payload 1 now c" wc_inv wc_live
proof (unfold_locales, goal_cases)
  case (1 m now k)
  then show ?case by (rule wc_Get_inv)
next
  case (2 m now k v)
  then show ?case by (rule wc_Set_inv)
next
  case (3 m now k)
  show ?case by (rule wc_Get_result)
next
  case (4 m now t k k')
  then show ?case by (simp add: wc_Get_live)
next
  case (5 m k now v)
  then show ?case by (simp add: wc_Set_now)
next
  case (6 m now t k' k v)
  then show ?case by (intro wc_Set_other)
qed

section \<open>Properties\<close>

text \<open>
  Property C16. The cache of snapshot frames. Starting empty, reading and storing keep its index and its
  list in agreement and its size within the capacity. A frame stored under a key is what every read of
  that key returns until its time to live is over, unless it was pushed out; storing never changes
  what another key returns, except that the other frame may have been pushed out. Reading, and on a miss
  storing a new frame, leaves the frame that was cached or else the new one.
\<close>

theorem wire_cache_reads_writes:
  assumes "wc_inv c" "TrimSpace key \<noteq> ''''" "payloadLen \<noteq> 0"
  shows "wc_inv (wc_Set key payload payloadLen now c) \<and> wc_inv (fst (wc_Get key now c)) \<and>
    int (length (wc_items (wc_Set key payload payloadLen now c))) \<le> wc_capacity (wc_Set key payload payloadLen now c) \<and>
    (now \<le> t \<and> t \<le> now + wc_ttl c \<longrightarrow>
       snd (wc_Get key t (wc_Set key payload payloadLen now c)) = Some payload) \<and>
    (key' \<noteq> key \<longrightarrow> snd (wc_Get key' t (wc_Set key payload payloadLen now c)) \<in> {None, snd (wc_Get key' t c)}) \<and>
    wc_live (case wc_Get key now c of (c', Some f) \<Rightarrow> c' | (c', None) \<Rightarrow> wc_Set key payload payloadLen now c') now key =
      (case wc_live c now key of Some f \<Rightarrow> Some f | None \<Rightarrow> Some payload)"
proof -
  note inv = wc_Set_inv [OF assms(1), of key payload payloadLen now]
  have "wc_live (case wc_Get key now c of (c', Some f) \<Rightarrow> c' | (c', None) \<Rightarrow> wc_Set key payload payloadLen now c') now key =
      (case wc_live c now key of Some f \<Rightarrow> Some f | None \<Rightarrow> Some payload)"
    unfolding wc_Set_len [OF assms(3)] by (rule wire_cache.read_or_store(2) [OF assms(1,2)])
  then show ?thesis
    using inv wc_Get_inv [OF assms(1)] wc_Set_same [OF assms] wc_Set_other [OF assms(1)]
    by (auto simp: wc_Get_result wc_inv_def [of "wc_Set key payload payloadLen now c"])
qed

theorem wire_cache_reads_writes_witness:
  "snd (wc_Get ''b|X|t|0'' 2 (wc_Set ''b|X|t|0'' (7 :: nat) 3 1 (NewSnapshotWireCache 1 5))) = Some 7"
proof -
  have "TrimSpace ''b|X|t|0'' \<noteq> ''''" by code_simp
  from wire_cache_reads_writes [OF wc_new_inv this, of 3 "7 :: nat" 1 1 5 2]
  show ?thesis by (simp add: NewSnapshotWireCache_def)
qed

end
