(* ===== verification/Router.thy ===== *)
theory Router
  imports Delivery_Domain Bounded_Map
begin

text \<open>
  The delivery router (\<open>actors/delivery/runtime/router.go\<close>, \<open>router_coherence_sampling.go\<close>): the
  actor that keeps the index of sessions and subjects and sends every accepted envelope to the sessions
  subscribed to its subject, to the subject with the market type, and to the wildcard signal subject.

  An actor handles one message at a time, so a handler is one step of the model. Go maps are association
  lists with distinct keys; where the code ranges over a map, the order of the list stands for the order
  the runtime picks. A process identifier is the string that \<open>PID.String\<close> gives. A handler reads the
  clock once, as its argument \<open>now\<close> (nanoseconds, \<open>0\<close> the zero time). The messages a handler sends and the
  envelopes it stores are the list it returns; logs, metrics and traces are left out.
\<close>

section \<open>State\<close>

record streamState =
  ss_lastOriginSeq :: int
  ss_lastOriginTsIngest :: int
  ss_lastProcessorInstanceID :: string
  ss_pendingResyncWatermark :: int
  ss_lastDeliverySeq :: int
  ss_lastSeenAt :: int

definition zero_streamState :: streamState where
  "zero_streamState =
     \<lparr>ss_lastOriginSeq = 0, ss_lastOriginTsIngest = 0, ss_lastProcessorInstanceID = '''',
      ss_pendingResyncWatermark = 0, ss_lastDeliverySeq = 0, ss_lastSeenAt = 0\<rparr>"

type_synonym coherenceSampleKey = "string \<times> int \<times> int \<times> string \<times> string \<times> string \<times> string"

record Router =
  rt_timeframe :: string
  rt_hasStore :: bool
  rt_maxActiveSessions :: int
  rt_streamStateTTL :: int
  rt_maxStreamStateEntries :: int
  rt_sessions :: "(string \<times> string) list"
  rt_sessionByPID :: "(string \<times> string) list"
  rt_sessionSubjects :: "(string \<times> Subject list) list"
  rt_subjectSessions :: "(Subject \<times> (string \<times> string) list) list"
  rt_subjectPIDs :: "(Subject \<times> string list) list"
  rt_streamState :: "(string \<times> streamState) list"
  rt_coherenceSamples :: "(coherenceSampleKey \<times> int) list"
  rt_coherenceSampleDrops :: int
  rt_coherenceSampleWindow :: int
  rt_stopped :: bool

datatype router_out =
    StoreEnvelope Envelope
  | DeliverEvent string Subject Envelope

definition normalizeStreamCoherenceMode :: "string \<Rightarrow> string" where
  "normalizeStreamCoherenceMode raw =
     (let mode = ToLower (TrimSpace raw) in
      if mode = '''' \<or> mode = ''sticky_session'' then ''sticky_session''
      else if mode = ''upstream_sequencer'' then ''upstream_sequencer''
      else ''unknown'')"

text \<open>A new router after its first message: the configured values, or the defaults.\<close>

definition router_ensureDefaults :: "string \<Rightarrow> bool \<Rightarrow> int \<Rightarrow> int \<Rightarrow> int \<Rightarrow> Router" where
  "router_ensureDefaults timeframe hasStore maxActiveSessions streamStateTTL maxStreamStateEntries =
     \<lparr>rt_timeframe = timeframe, rt_hasStore = hasStore, rt_maxActiveSessions = maxActiveSessions,
      rt_streamStateTTL = (if streamStateTTL \<le> 0 then 30 * 60 * 1000000000 else streamStateTTL),
      rt_maxStreamStateEntries = (if maxStreamStateEntries \<le> 0 then 50000 else maxStreamStateEntries),
      rt_sessions = [], rt_sessionByPID = [], rt_sessionSubjects = [], rt_subjectSessions = [],
      rt_subjectPIDs = [], rt_streamState = [], rt_coherenceSamples = [], rt_coherenceSampleDrops = 0,
      rt_coherenceSampleWindow = 0, rt_stopped = False\<rparr>"

section \<open>The index of sessions and subjects\<close>

definition rebuildSubjectPIDs :: "Subject \<Rightarrow> Router \<Rightarrow> Router" where
  "rebuildSubjectPIDs subject r =
     (case map_of (rt_subjectSessions r) subject of
        None \<Rightarrow> r\<lparr>rt_subjectPIDs := AList.delete subject (rt_subjectPIDs r)\<rparr>
      | Some inner \<Rightarrow>
          if length inner = 0 then r\<lparr>rt_subjectPIDs := AList.delete subject (rt_subjectPIDs r)\<rparr>
          else r\<lparr>rt_subjectPIDs := AList.update subject (map snd inner) (rt_subjectPIDs r)\<rparr>)"

definition router_register :: "string \<Rightarrow> string option \<Rightarrow> Router \<Rightarrow> Router" where
  "router_register sid pid r =
     (case pid of
        None \<Rightarrow> r
      | Some p \<Rightarrow>
          if sid = '''' then r
          else if map_of (rt_sessions r) sid = None \<and> rt_maxActiveSessions r > 0 \<and>
                  int (length (rt_sessions r)) \<ge> rt_maxActiveSessions r then r
          else
            let byPID = (case map_of (rt_sessions r) sid of
                  Some previousPID \<Rightarrow> AList.delete previousPID (rt_sessionByPID r)
                | None \<Rightarrow> rt_sessionByPID r)
            in r\<lparr>rt_sessions := AList.update sid p (rt_sessions r),
                 rt_sessionByPID := AList.update p sid byPID,
                 rt_sessionSubjects := (case map_of (rt_sessionSubjects r) sid of
                     Some _ \<Rightarrow> rt_sessionSubjects r
                   | None \<Rightarrow> AList.update sid [] (rt_sessionSubjects r))\<rparr>)"

definition removeSessionFromSubject :: "string \<Rightarrow> Subject \<Rightarrow> Router \<Rightarrow> Router" where
  "removeSessionFromSubject sid subject r =
     (let r = (case map_of (rt_sessionSubjects r) sid of
            None \<Rightarrow> r
          | Some subs \<Rightarrow>
              let subs = removeAll subject subs in
              if length subs = 0 then r\<lparr>rt_sessionSubjects := AList.delete sid (rt_sessionSubjects r)\<rparr>
              else r\<lparr>rt_sessionSubjects := AList.update sid subs (rt_sessionSubjects r)\<rparr>)
      in case map_of (rt_subjectSessions r) subject of
           None \<Rightarrow> r
         | Some pids \<Rightarrow>
             let pids = AList.delete sid pids in
             if length pids = 0 then
               r\<lparr>rt_subjectSessions := AList.delete subject (rt_subjectSessions r),
                 rt_subjectPIDs := AList.delete subject (rt_subjectPIDs r),
                 rt_streamState := AList.delete (subject_String subject) (rt_streamState r)\<rparr>
             else
               rebuildSubjectPIDs subject
                 (r\<lparr>rt_subjectSessions := AList.update subject pids (rt_subjectSessions r)\<rparr>))"

definition router_unregister :: "string \<Rightarrow> Router \<Rightarrow> Router" where
  "router_unregister sid r =
     (let r = (case map_of (rt_sessionSubjects r) sid of
            None \<Rightarrow> r
          | Some subs \<Rightarrow> foldl (\<lambda>r subject. removeSessionFromSubject sid subject r) r subs);
          r = r\<lparr>rt_sessionSubjects := AList.delete sid (rt_sessionSubjects r)\<rparr>;
          r = (case map_of (rt_sessions r) sid of
            None \<Rightarrow> r
          | Some pid \<Rightarrow> r\<lparr>rt_sessionByPID := AList.delete pid (rt_sessionByPID r)\<rparr>)
      in r\<lparr>rt_sessions := AList.delete sid (rt_sessions r)\<rparr>)"

definition router_subscribe :: "string \<Rightarrow> Subject \<Rightarrow> Router \<Rightarrow> Router" where
  "router_subscribe sid subject r =
     (case map_of (rt_sessions r) sid of
        None \<Rightarrow> r
      | Some pid \<Rightarrow>
          let r = (case map_of (rt_sessionSubjects r) sid of
                Some _ \<Rightarrow> r
              | None \<Rightarrow> r\<lparr>rt_sessionSubjects := AList.update sid [] (rt_sessionSubjects r)\<rparr>);
              subs = (case map_of (rt_sessionSubjects r) sid of Some subs \<Rightarrow> subs | None \<Rightarrow> []) in
          if subject \<in> set subs then r
          else
            let inner = (case map_of (rt_subjectSessions r) subject of Some inner \<Rightarrow> inner | None \<Rightarrow> [])
            in rebuildSubjectPIDs subject
                 (r\<lparr>rt_sessionSubjects := AList.update sid (subject # subs) (rt_sessionSubjects r),
                    rt_subjectSessions :=
                      AList.update subject (AList.update sid pid inner) (rt_subjectSessions r)\<rparr>))"

definition router_unsubscribe :: "string \<Rightarrow> Subject \<Rightarrow> Router \<Rightarrow> Router" where
  "router_unsubscribe sid subject r = removeSessionFromSubject sid subject r"

definition onActorStopped :: "string option \<Rightarrow> string option \<Rightarrow> Router \<Rightarrow> Router" where
  "onActorStopped evtPID selfPID r =
     (case (evtPID, selfPID) of
        (Some p, Some me) \<Rightarrow>
          if p = me then r
          else (case map_of (rt_sessionByPID r) p of None \<Rightarrow> r | Some sid \<Rightarrow> router_unregister sid r)
      | _ \<Rightarrow> r)"

section \<open>The state of the streams\<close>

definition sweepStreamState :: "int \<Rightarrow> Router \<Rightarrow> Router" where
  "sweepStreamState now r =
     (if length (rt_streamState r) = 0 then r
      else r\<lparr>rt_streamState :=
        filter (\<lambda>(_, st). \<not> (ss_lastSeenAt st = 0 \<or> time_sub now (ss_lastSeenAt st) > rt_streamStateTTL r))
          (rt_streamState r)\<rparr>)"

fun oldest_loop :: "(string \<times> streamState) list \<Rightarrow> string \<times> int \<Rightarrow> string \<times> int" where
  "oldest_loop [] best = best"
| "oldest_loop ((sid, st) # rest) (oldestID, oldestTime) =
     (if oldestID = '''' \<or> ss_lastSeenAt st < oldestTime then oldest_loop rest (sid, ss_lastSeenAt st)
      else oldest_loop rest (oldestID, oldestTime))"

definition evictOldestStreamState :: "Router \<Rightarrow> Router" where
  "evictOldestStreamState r =
     (let oldestID = fst (oldest_loop (rt_streamState r) ('''', 0)) in
      if oldestID \<noteq> '''' then r\<lparr>rt_streamState := AList.delete oldestID (rt_streamState r)\<rparr> else r)"

definition processorInstanceIDFromMeta :: "meta \<Rightarrow> string" where
  "processorInstanceIDFromMeta m =
     (if length m = 0 then '''' else TrimSpace (meta_get m ''processor_instance_id''))"

definition processorInstanceIDForLog :: "meta \<Rightarrow> string" where
  "processorInstanceIDForLog m =
     (let i = processorInstanceIDFromMeta m in if i = '''' then ''unknown'' else i)"

definition instanceIDForLog :: "meta \<Rightarrow> string" where
  "instanceIDForLog m =
     (if length m = 0 then ''unknown''
      else let instance_id = TrimSpace (meta_get m ''server_instance_id'') in
        if instance_id \<noteq> '''' then instance_id else processorInstanceIDForLog m)"

definition originFromMeta :: "meta \<Rightarrow> string" where
  "originFromMeta m =
     (if length m = 0 then ''router''
      else let o' = ToLower (TrimSpace (meta_get m ''origin'')) in
        if o' \<in> set [''router'', ''session'', ''gateway''] then o' else ''router'')"

definition SplitN :: "char \<Rightarrow> nat \<Rightarrow> string \<Rightarrow> string list" where
  "SplitN c n s =
     (let ts = Split c s in
      if length ts \<le> n then ts else take (n - 1) ts @ [Join (drop (n - 1) ts) [c]])"

definition deliveryOwnershipToken :: "string \<Rightarrow> string" where
  "deliveryOwnershipToken streamID =
     (let parts = SplitN CHR ''/'' 4 (TrimSpace streamID) in
      if length parts \<noteq> 4 then ''''
      else
        let key = \<lparr>skVenue = parts ! 1, skInstrument = parts ! 2, skChannel = parts ! 0, skTimeframe = parts ! 3\<rparr>
        in FormatUint (ShardKey ''delivery'' key) 10)"

definition flushCoherenceSamples :: "Router \<Rightarrow> Router" where
  "flushCoherenceSamples r =
     (if length (rt_coherenceSamples r) = 0 then r\<lparr>rt_coherenceSampleWindow := 0\<rparr>
      else r\<lparr>rt_coherenceSamples := [], rt_coherenceSampleDrops := 0, rt_coherenceSampleWindow := 0\<rparr>)"

definition recordCoherenceSample :: "coherenceSampleKey \<Rightarrow> Router \<Rightarrow> Router" where
  "recordCoherenceSample sample r =
     (let r = (case map_of (rt_coherenceSamples r) sample of
            Some n \<Rightarrow> r\<lparr>rt_coherenceSamples := AList.update sample (n + 1) (rt_coherenceSamples r)\<rparr>
          | None \<Rightarrow>
              if length (rt_coherenceSamples r) < 64 then
                r\<lparr>rt_coherenceSamples := AList.update sample 1 (rt_coherenceSamples r)\<rparr>
              else r\<lparr>rt_coherenceSampleDrops := rt_coherenceSampleDrops r + 1\<rparr>);
          r = r\<lparr>rt_coherenceSampleWindow := rt_coherenceSampleWindow r + 1\<rparr>
      in if rt_coherenceSampleWindow r \<ge> 500 then flushCoherenceSamples r else r)"

definition make_room :: "int \<Rightarrow> Router \<Rightarrow> Router" where
  "make_room now r =
     (if int (length (rt_streamState r)) \<ge> rt_maxStreamStateEntries r then
        let r = sweepStreamState now r in
        if int (length (rt_streamState r)) \<ge> rt_maxStreamStateEntries r then evictOldestStreamState r else r
      else r)"

definition accept_input :: "string \<Rightarrow> Envelope \<Rightarrow> string \<Rightarrow> streamState \<Rightarrow> seqPolicyInput" where
  "accept_input streamID env candidateOwner st =
     \<lparr>i_streamKey = streamID,
      i_eventType = env_Type env,
      i_candidateSeq = env_Seq env,
      i_candidateTsIngest = env_TsIngest env,
      i_lastSeq = ss_lastOriginSeq st,
      i_lastTsIngest = ss_lastOriginTsIngest st,
      i_candidateProcessorID = candidateOwner,
      i_lastProcessorID = ss_lastProcessorInstanceID st,
      i_handoffWatermarkSeq = handoffWatermarkFromMeta (env_Meta env),
      i_pendingResyncWatermark = ss_pendingResyncWatermark st\<rparr>"

definition accepted_state :: "Envelope \<Rightarrow> string \<Rightarrow> streamState \<Rightarrow> streamState" where
  "accepted_state env candidateOwner st =
     (let st = st\<lparr>ss_lastOriginSeq := env_Seq env\<rparr>;
          st = (if env_TsIngest env > 0 then st\<lparr>ss_lastOriginTsIngest := env_TsIngest env\<rparr> else st);
          st = (if candidateOwner \<noteq> '''' then st\<lparr>ss_lastProcessorInstanceID := candidateOwner\<rparr> else st)
      in if ss_pendingResyncWatermark st > 0 \<and> env_Seq env > ss_pendingResyncWatermark st
         then st\<lparr>ss_pendingResyncWatermark := 0\<rparr> else st)"

definition acceptStreamSeq :: "int \<Rightarrow> string \<Rightarrow> Envelope \<Rightarrow> Router \<Rightarrow> Router \<times> bool \<times> string" where
  "acceptStreamSeq now streamID env r =
     (let streamID = TrimSpace streamID in
      if streamID = '''' then (r, False, ''seq_invalid'')
      else if env_Seq env \<le> 0 then (r, False, ''seq_invalid'')
      else
        let (r, st) = (case map_of (rt_streamState r) streamID of
              Some st \<Rightarrow> (r, st)
            | None \<Rightarrow> (make_room now r, zero_streamState));
            st = st\<lparr>ss_lastSeenAt := now\<rparr>;
            candidateOwner = processorInstanceIDFromMeta (env_Meta env);
            candidateOwner = (if candidateOwner = '''' then deliveryOwnershipToken streamID else candidateOwner);
            decision = Decide defaultSeqPolicyStaleGapWindow (accept_input streamID env candidateOwner st)
        in
        if d_action decision = seqPolicyActionAccept then
          (r\<lparr>rt_streamState := AList.update streamID (accepted_state env candidateOwner st) (rt_streamState r)\<rparr>,
           True, '''')
        else
          let st = (if d_action decision = seqPolicyActionConvertToResync \<and>
                       d_resyncWatermark decision > ss_pendingResyncWatermark st
                    then st\<lparr>ss_pendingResyncWatermark := d_resyncWatermark decision\<rparr> else st);
              r = r\<lparr>rt_streamState := AList.update streamID st (rt_streamState r)\<rparr>;
              sampleReason = (if d_coherenceReason decision = '''' then ''unknown'' else d_coherenceReason decision);
              r = recordCoherenceSample
                    (streamID, ss_lastOriginSeq st, env_Seq env, sampleReason, candidateOwner,
                     instanceIDForLog (env_Meta env), originFromMeta (env_Meta env)) r;
              rejectReason = TrimSpace (d_rejectReason decision)
          in (r, False, if rejectReason = '''' then ''seq_non_monotonic'' else rejectReason))"

definition nextDeliverySeq :: "int \<Rightarrow> string \<Rightarrow> Router \<Rightarrow> Router \<times> int" where
  "nextDeliverySeq now streamID r =
     (let streamID = TrimSpace streamID in
      if streamID = '''' then (r, 0)
      else
        let st = (case map_of (rt_streamState r) streamID of Some st \<Rightarrow> st | None \<Rightarrow> zero_streamState);
            next = wrap64 (ss_lastDeliverySeq st + 1);
            next = (if next \<le> 0 then 1 else next)
        in (r\<lparr>rt_streamState :=
              AList.update streamID (st\<lparr>ss_lastDeliverySeq := next, ss_lastSeenAt := now\<rparr>) (rt_streamState r)\<rparr>,
            next))"

section \<open>Routing an envelope\<close>

definition allowEnvelopeTimeframeOverride :: "string \<Rightarrow> bool" where
  "allowEnvelopeTimeframeOverride eventType =
     (let et = ToLower (TrimSpace eventType) in
      if HasPrefix et ''insights.'' \<or> HasPrefix et ''evidence.'' then True
      else if et \<in> set [''aggregation.candle'', ''aggregation.stats'', ''aggregation.tape'', ''aggregation.oi'',
                        ''aggregation.delta_volume'', ''aggregation.cvd'', ''aggregation.bar_stats''] then True
      else if et \<in> set [''signal.composite'', ''signal.event''] then True
      else False)"

definition routingTimeframeForEnvelope :: "string \<Rightarrow> Envelope \<Rightarrow> string" where
  "routingTimeframeForEnvelope defaultTimeframe env =
     (let timeframe = TrimSpace defaultTimeframe;
          timeframe = (if timeframe = '''' then DefaultTimeframe else timeframe) in
      if \<not> allowEnvelopeTimeframeOverride (env_Type env) then timeframe
      else if length (env_Meta env) = 0 then timeframe
      else let tf = TrimSpace (meta_get (env_Meta env) ''timeframe'') in
        if tf \<noteq> '''' then ToLower tf else timeframe)"

definition routingMarketTypeAliasSubject :: "Subject \<Rightarrow> Envelope \<Rightarrow> Subject option" where
  "routingMarketTypeAliasSubject primary env =
     (if length (env_Meta env) = 0 then None
      else let marketType = ToUpper (TrimSpace (meta_get (env_Meta env) ''instrument_market_type'')) in
        if marketType = '''' then None
        else let symbol = TrimSpace (env_Instrument env) in
          if symbol = '''' then None
          else
            let symbol = (if \<not> Contains symbol '':'' then symbol @ '':'' @ marketType else symbol) in
            case NewSubject (sub_StreamType primary) (sub_Venue primary) symbol (sub_Timeframe primary) of
              Inl p \<Rightarrow> None
            | Inr alias \<Rightarrow> if alias = primary then None else Some alias)"

text \<open>
  The loops over the alias targets and over the wildcard targets: a process that already has the event is
  skipped, and the first one that has not takes the next delivery number of the subject.
\<close>

fun fan_out ::
  "int \<Rightarrow> bool \<Rightarrow> Subject \<Rightarrow> Envelope \<Rightarrow> string list \<Rightarrow>
   Router \<times> string list \<times> int option \<times> router_out list \<Rightarrow>
   Router \<times> string list \<times> int option \<times> router_out list" where
  "fan_out now track subject env [] s = s"
| "fan_out now track subject env (pid # pids) (r, sent, seq, outs) =
     (if track \<and> pid \<in> set sent then fan_out now track subject env pids (r, sent, seq, outs)
      else
        let sent = (if track then pid # sent else sent);
            (r, n) = (case seq of Some n \<Rightarrow> (r, n) | None \<Rightarrow> nextDeliverySeq now (subject_String subject) r)
        in fan_out now track subject env pids
             (r, sent, Some n, outs @ [DeliverEvent pid subject (env\<lparr>env_Seq := n\<rparr>)]))"

definition accept_if :: "int \<Rightarrow> string list \<Rightarrow> Subject option \<Rightarrow> Envelope \<Rightarrow> Router \<Rightarrow> Router \<times> bool" where
  "accept_if now targets subject env r =
     (case subject of
        None \<Rightarrow> (r, True)
      | Some s \<Rightarrow>
          if length targets > 0 then
            (case acceptStreamSeq now (subject_String s) env r of (r, ok, reason) \<Rightarrow> (r, ok))
          else (r, True))"

definition targets_of :: "Router \<Rightarrow> Subject option \<Rightarrow> string list" where
  "targets_of r subject =
     (case subject of
        None \<Rightarrow> []
      | Some s \<Rightarrow> (case map_of (rt_subjectPIDs r) s of None \<Rightarrow> [] | Some pids \<Rightarrow> pids))"

definition wildcard_subject :: "Subject \<Rightarrow> Subject option" where
  "wildcard_subject subject =
     (if IsSignal subject then
        (case NewSignalSubject ''*'' (sub_Venue subject) (sub_Symbol subject) (sub_Timeframe subject) of
           Inl p \<Rightarrow> None
         | Inr wild \<Rightarrow> if wild \<noteq> subject then Some wild else None)
      else None)"

text \<open>The sends of an admitted envelope to the three lists of targets.\<close>

definition send_all ::
  "int \<Rightarrow> Subject \<Rightarrow> Subject option \<Rightarrow> Subject option \<Rightarrow> Envelope \<Rightarrow> string list \<Rightarrow> string list \<Rightarrow> string list \<Rightarrow>
   Router \<Rightarrow> Router \<times> router_out list" where
  "send_all now subject aliasSubject wildcardSubject env targets aliasTargets wildcardTargets r =
     (let track = (length targets + length aliasTargets + length wildcardTargets > 1);
          (r, n) = nextDeliverySeq now (subject_String subject) r;
          sends = map (\<lambda>pid. DeliverEvent pid subject (env\<lparr>env_Seq := n\<rparr>)) targets;
          sent = (if track then rev targets else []);
          (r, sent, _, aliasSends) =
            (case aliasSubject of
               None \<Rightarrow> (r, sent, None, [])
             | Some s \<Rightarrow> fan_out now track s env aliasTargets (r, sent, None, []));
          (r, sent, _, wildcardSends) =
            (case wildcardSubject of
               None \<Rightarrow> (r, sent, None, [])
             | Some s \<Rightarrow> fan_out now track s env wildcardTargets (r, sent, None, []))
      in (r, sends @ aliasSends @ wildcardSends))"

text \<open>The part of the handler after the subject is known: admission on each stream, then the sends.\<close>

definition deliver_all ::
  "int \<Rightarrow> Subject \<Rightarrow> Subject option \<Rightarrow> Subject option \<Rightarrow> Envelope \<Rightarrow> Router \<Rightarrow> Router \<times> router_out list" where
  "deliver_all now subject aliasSubject wildcardSubject env r =
     (let targets = targets_of r (Some subject);
          aliasTargets = targets_of r aliasSubject;
          wildcardTargets = targets_of r wildcardSubject in
      if length targets = 0 \<and> length aliasTargets = 0 \<and> length wildcardTargets = 0 then (r, [])
      else
        let (r, ok) = accept_if now targets (Some subject) env r in
        if \<not> ok then (r, [])
        else
          let (r, ok) = accept_if now aliasTargets aliasSubject env r in
          if \<not> ok then (r, [])
          else
            let (r, ok) = accept_if now wildcardTargets wildcardSubject env r in
            if \<not> ok then (r, [])
            else send_all now subject aliasSubject wildcardSubject env targets aliasTargets wildcardTargets r)"

definition handleEnvelope :: "int \<Rightarrow> Envelope \<Rightarrow> Router \<Rightarrow> Router \<times> router_out list" where
  "handleEnvelope now env r =
     (if rt_stopped r then (r, [])
      else case ValidateEnvelopeForDelivery env of
        Some p \<Rightarrow> (r, [])
      | None \<Rightarrow>
          let stored = (if rt_hasStore r then [StoreEnvelope env] else []);
              timeframe = routingTimeframeForEnvelope (rt_timeframe r) env in
          case delivery_SubjectFromEnvelope env timeframe of
            Inl p \<Rightarrow> (r, stored)
          | Inr subject \<Rightarrow>
              (case deliver_all now subject (routingMarketTypeAliasSubject subject env)
                  (wildcard_subject subject) env r of
                 (r, sends) \<Rightarrow> (r, stored @ sends)))"

definition router_onStopped :: "Router \<Rightarrow> Router" where
  "router_onStopped r = flushCoherenceSamples (r\<lparr>rt_stopped := True\<rparr>)"

text \<open>The messages of the router and the step that each of them makes.\<close>

datatype router_msg =
    RegisterSession string "string option"
  | UnregisterSession string
  | SubscribeSession string Subject
  | UnsubscribeSession string Subject
  | DeliverEnvelope Envelope
  | RouterSweep
  | ActorStopped "string option" "string option"
  | RouterStopped

fun router_Receive :: "int \<Rightarrow> router_msg \<Rightarrow> Router \<Rightarrow> Router \<times> router_out list" where
  "router_Receive now (RegisterSession sid pid) r = (router_register sid pid r, [])"
| "router_Receive now (UnregisterSession sid) r = (router_unregister sid r, [])"
| "router_Receive now (SubscribeSession sid subject) r = (router_subscribe sid subject r, [])"
| "router_Receive now (UnsubscribeSession sid subject) r = (router_unsubscribe sid subject r, [])"
| "router_Receive now (DeliverEnvelope env) r = handleEnvelope now env r"
| "router_Receive now RouterSweep r = (sweepStreamState now r, [])"
| "router_Receive now (ActorStopped p me) r = (onActorStopped p me r, [])"
| "router_Receive now RouterStopped r = (router_onStopped r, [])"

section \<open>Specification\<close>

text \<open>The subjects of a session, and the sessions of a subject with their processes.\<close>

definition subs_of :: "Router \<Rightarrow> string \<Rightarrow> Subject set" where
  "subs_of r sid = (case map_of (rt_sessionSubjects r) sid of None \<Rightarrow> {} | Some subs \<Rightarrow> set subs)"

definition inner_of :: "Router \<Rightarrow> Subject \<Rightarrow> (string \<times> string) list" where
  "inner_of r subject = (case map_of (rt_subjectSessions r) subject of None \<Rightarrow> [] | Some inner \<Rightarrow> inner)"

definition sess_of :: "Router \<Rightarrow> Subject \<Rightarrow> string set" where
  "sess_of r subject = fst ` set (inner_of r subject)"

definition router_inv :: "Router \<Rightarrow> bool" where
  "router_inv r \<longleftrightarrow>
     (\<forall>sid subject. subject \<in> subs_of r sid \<longleftrightarrow> sid \<in> sess_of r subject) \<and>
     (\<forall>subject. map_of (rt_subjectSessions r) subject \<noteq> Some []) \<and>
     (\<forall>subject. distinct (map fst (inner_of r subject))) \<and>
     (\<forall>subject. targets_of r (Some subject) = map snd (inner_of r subject)) \<and>
     (\<forall>sid. subs_of r sid \<noteq> {} \<longrightarrow> map_of (rt_sessions r) sid \<noteq> None)"

inductive router_reach :: "Router \<Rightarrow> bool" where
  init: "router_reach (router_ensureDefaults timeframe hasStore maxSessions ttl maxEntries)"
| step: "router_reach r \<Longrightarrow> router_reach (fst (router_Receive now msg r))"

definition index_of :: "Router \<Rightarrow> (string \<times> string) list \<times> (string \<times> Subject list) list \<times>
    (Subject \<times> (string \<times> string) list) list \<times> (Subject \<times> string list) list" where
  "index_of r = (rt_sessions r, rt_sessionSubjects r, rt_subjectSessions r, rt_subjectPIDs r)"

text \<open>The numbers that one stream admits from a sequence of observations.\<close>

fun accept_run :: "string \<Rightarrow> (int \<times> Envelope) list \<Rightarrow> Router \<Rightarrow> int list" where
  "accept_run sid [] r = []"
| "accept_run sid ((now, env) # obs) r =
     (case acceptStreamSeq now sid env r of
        (r', ok, _) \<Rightarrow> (if ok then [env_Seq env] else []) @ accept_run sid obs r')"

definition last_origin :: "Router \<Rightarrow> string \<Rightarrow> int" where
  "last_origin r sid = (case map_of (rt_streamState r) sid of None \<Rightarrow> 0 | Some st \<Rightarrow> ss_lastOriginSeq st)"

fun event_pid :: "router_out \<Rightarrow> string list" where
  "event_pid (StoreEnvelope e) = []"
| "event_pid (DeliverEvent p s e) = [p]"

definition pids_of :: "router_out list \<Rightarrow> string list" where
  "pids_of outs = concat (map event_pid outs)"

fun router_run :: "(int \<times> router_msg) list \<Rightarrow> Router \<Rightarrow> Router \<times> router_out list" where
  "router_run [] r = (r, [])"
| "router_run ((now, msg) # msgs) r =
     (case router_Receive now msg r of (r', outs) \<Rightarrow> (case router_run msgs r' of (r'', outs') \<Rightarrow> (r'', outs @ outs')))"

text \<open>
  Two sessions and two subjects for the examples: one session on the plain instrument, one on the
  instrument with its market type, which the router also serves with the events of the plain one.
\<close>

definition trade :: "string \<Rightarrow> string \<Rightarrow> int \<Rightarrow> Envelope" where
  "trade instrument marketType seq =
     \<lparr>env_Type = ''marketdata.trade'', env_Version = 1, env_Venue = ''binance'', env_Instrument = instrument,
      env_TsExchange = 0, env_TsIngest = 1, env_Seq = seq, env_IdempotencyKey = ''k'', env_ContentType = '''',
      env_Meta = [(''instrument_market_type'', marketType), (''processor_instance_id'', ''p'')],
      env_Payload = ''x'', env_topicKey = ''''\<rparr>"

definition trade_subject :: "string \<Rightarrow> Subject" where
  "trade_subject symbol =
     \<lparr>sub_StreamType = ''marketdata.trade'', sub_Kind = '''', sub_Venue = ''binance'', sub_Symbol = symbol,
      sub_Timeframe = ''raw''\<rparr>"

definition two_sessions :: "(int \<times> router_msg) list" where
  "two_sessions =
     [(1, RegisterSession ''a'' (Some ''pa'')), (1, SubscribeSession ''a'' (trade_subject ''BTC'')),
      (1, RegisterSession ''b'' (Some ''pb'')), (1, SubscribeSession ''b'' (trade_subject ''BTC:SPOT''))]"

definition alias_only :: "(int \<times> router_msg) list" where
  "alias_only =
     [(1, RegisterSession ''b'' (Some ''pb'')), (1, SubscribeSession ''b'' (trade_subject ''BTC:SPOT''))]"

section \<open>Lemmas\<close>

lemma index_inv: "index_of r = index_of r' \<Longrightarrow> router_inv r = router_inv r'"
  by (simp add: index_of_def router_inv_def subs_of_def sess_of_def inner_of_def targets_of_def)

lemma rebuild_simps [simp]:
  "rt_sessions (rebuildSubjectPIDs s r) = rt_sessions r"
  "rt_sessionSubjects (rebuildSubjectPIDs s r) = rt_sessionSubjects r"
  "rt_subjectSessions (rebuildSubjectPIDs s r) = rt_subjectSessions r"
  by (simp_all add: rebuildSubjectPIDs_def split: option.split)

lemma map_of_rebuild:
  "map_of (rt_subjectPIDs (rebuildSubjectPIDs s r)) s' =
     (if s' = s then (case inner_of r s of [] \<Rightarrow> None | inner \<Rightarrow> Some (map snd inner))
      else map_of (rt_subjectPIDs r) s')"
  by (auto simp: rebuildSubjectPIDs_def inner_of_def update_conv' delete_conv' split: option.split list.split)

lemma remove_sessions [simp]: "rt_sessions (removeSessionFromSubject sid s r) = rt_sessions r"
  by (auto simp: removeSessionFromSubject_def Let_def split: option.split)

lemma subs_of_remove:
  "subs_of (removeSessionFromSubject sid s r) sid' = (if sid' = sid then subs_of r sid - {s} else subs_of r sid')"
proof -
  have "rt_sessionSubjects (removeSessionFromSubject sid s r) =
      (case map_of (rt_sessionSubjects r) sid of
         None \<Rightarrow> rt_sessionSubjects r
       | Some subs \<Rightarrow> if removeAll s subs = [] then AList.delete sid (rt_sessionSubjects r)
                     else AList.update sid (removeAll s subs) (rt_sessionSubjects r))"
    by (auto simp: removeSessionFromSubject_def Let_def split: option.split)
  moreover have "removeAll s subs = [] \<Longrightarrow> set subs - {s} = {}" for subs
    by (metis set_removeAll set_empty)
  ultimately show ?thesis
    by (auto simp: subs_of_def update_conv' delete_conv' split: option.split)
qed

lemma fst_set_delete: "fst ` set (AList.delete k xs) = fst ` set xs - {k}"
  by (induction xs) auto

lemma subjectSessions_remove:
  "map_of (rt_subjectSessions (removeSessionFromSubject sid s r)) s' =
     (if s' = s then
        (case AList.delete sid (inner_of r s) of [] \<Rightarrow> None | inner \<Rightarrow> Some inner)
      else map_of (rt_subjectSessions r) s')"
  by (auto simp: removeSessionFromSubject_def inner_of_def Let_def update_conv' delete_conv'
      split: option.split list.split)

lemma inner_of_remove:
  "inner_of (removeSessionFromSubject sid s r) s' =
     (if s' = s then AList.delete sid (inner_of r s) else inner_of r s')"
  by (simp add: inner_of_def [of "removeSessionFromSubject sid s r"] subjectSessions_remove split: list.split)
    (simp add: inner_of_def)

lemma targets_remove:
  assumes "\<forall>s. targets_of r (Some s) = map snd (inner_of r s)"
  shows "targets_of (removeSessionFromSubject sid s r) (Some s') =
    map snd (inner_of (removeSessionFromSubject sid s r) s')"
proof -
  have other: "map_of (rt_subjectPIDs (removeSessionFromSubject sid s r)) s' = map_of (rt_subjectPIDs r) s'"
    if "s' \<noteq> s"
    using that by (auto simp: removeSessionFromSubject_def Let_def delete_conv' map_of_rebuild split: option.split)
  have same: "map_of (rt_subjectPIDs (removeSessionFromSubject sid s r)) s =
      (case AList.delete sid (inner_of r s) of [] \<Rightarrow> None | inner \<Rightarrow> Some (map snd inner))
      \<or> map_of (rt_subjectSessions r) s = None \<and>
        map_of (rt_subjectPIDs (removeSessionFromSubject sid s r)) s = map_of (rt_subjectPIDs r) s"
    by (auto simp: removeSessionFromSubject_def Let_def delete_conv' map_of_rebuild inner_of_def update_conv'
        split: option.split list.split)
  show ?thesis
  proof (cases "s' = s")
    case True
    from same show ?thesis
    proof
      assume "map_of (rt_subjectPIDs (removeSessionFromSubject sid s r)) s =
        (case AList.delete sid (inner_of r s) of [] \<Rightarrow> None | inner \<Rightarrow> Some (map snd inner))"
      with True show ?thesis by (simp add: targets_of_def inner_of_remove split: list.split)
    next
      assume a: "map_of (rt_subjectSessions r) s = None \<and>
        map_of (rt_subjectPIDs (removeSessionFromSubject sid s r)) s = map_of (rt_subjectPIDs r) s"
      then have "inner_of r s = []" by (simp add: inner_of_def)
      moreover have "targets_of (removeSessionFromSubject sid s r) (Some s) = targets_of r (Some s)"
        using a by (simp add: targets_of_def)
      ultimately show ?thesis using True assms by (simp add: inner_of_remove)
    qed
  next
    case False
    with other assms show ?thesis by (simp add: inner_of_remove) (simp add: targets_of_def)
  qed
qed

lemma remove_inv: "router_inv r \<Longrightarrow> router_inv (removeSessionFromSubject sid s r)"
proof -
  assume inv: "router_inv r"
  have sess: "sess_of (removeSessionFromSubject sid s r) s' =
      (if s' = s then sess_of r s - {sid} else sess_of r s')" for s'
    by (simp add: sess_of_def inner_of_remove fst_set_delete)
  have "targets_of (removeSessionFromSubject sid s r) (Some s') =
      map snd (inner_of (removeSessionFromSubject sid s r) s')" for s'
    using inv by (intro targets_remove) (simp add: router_inv_def)
  moreover have "map_of (rt_subjectSessions (removeSessionFromSubject sid s r)) s' \<noteq> Some []" for s'
    using inv by (auto simp: subjectSessions_remove router_inv_def split: list.split)
  moreover have "distinct (map fst (inner_of (removeSessionFromSubject sid s r) s'))" for s'
    using inv by (simp add: inner_of_remove router_inv_def distinct_delete)
  ultimately show ?thesis
    using inv unfolding router_inv_def subs_of_remove sess by auto
qed

lemma register_index:
  "rt_subjectSessions (router_register sid p r) = rt_subjectSessions r"
  "rt_subjectPIDs (router_register sid p r) = rt_subjectPIDs r"
  "subs_of (router_register sid p r) sid' = subs_of r sid'"
  by (auto simp: router_register_def subs_of_def Let_def update_conv' split: option.split)

lemma register_sessions:
  "map_of (rt_sessions r) sid' \<noteq> None \<Longrightarrow> map_of (rt_sessions (router_register sid p r)) sid' \<noteq> None"
  by (auto simp: router_register_def Let_def update_conv' split: option.split)

lemma register_inv: "router_inv r \<Longrightarrow> router_inv (router_register sid p r)"
  using register_sessions [of r _ sid p]
  unfolding router_inv_def sess_of_def inner_of_def targets_of_def register_index by blast

lemma foldl_remove:
  "router_inv r \<Longrightarrow>
   router_inv (foldl (\<lambda>r s. removeSessionFromSubject sid s r) r ss) \<and>
   subs_of (foldl (\<lambda>r s. removeSessionFromSubject sid s r) r ss) sid = subs_of r sid - set ss \<and>
   rt_sessions (foldl (\<lambda>r s. removeSessionFromSubject sid s r) r ss) = rt_sessions r"
  by (induction ss arbitrary: r) (auto simp: remove_inv subs_of_remove)

lemma unregister_inv: "router_inv r \<Longrightarrow> router_inv (router_unregister sid r)"
proof -
  assume inv: "router_inv r"
  define r1 where "r1 = (case map_of (rt_sessionSubjects r) sid of
      None \<Rightarrow> r | Some subs \<Rightarrow> foldl (\<lambda>r s. removeSessionFromSubject sid s r) r subs)"
  have r1: "router_inv r1" "subs_of r1 sid = {}"
    using inv foldl_remove [OF inv, of sid]
    by (auto simp: r1_def subs_of_def [of r sid] split: option.split)
  have "subs_of (router_unregister sid r) sid' = subs_of r1 sid'" for sid'
    using r1(2) by (auto simp: router_unregister_def Let_def subs_of_def delete_conv' split: option.splits
        simp flip: r1_def)
  moreover have "rt_subjectSessions (router_unregister sid r) = rt_subjectSessions r1"
    "rt_subjectPIDs (router_unregister sid r) = rt_subjectPIDs r1"
    "map_of (rt_sessions (router_unregister sid r)) = (map_of (rt_sessions r1))(sid := None)"
    by (simp_all add: router_unregister_def Let_def delete_conv' split: option.splits flip: r1_def)
  ultimately show ?thesis
    using r1 unfolding router_inv_def sess_of_def inner_of_def targets_of_def by (metis fun_upd_other)
qed

lemma subscribe_index:
  assumes "map_of (rt_sessions r) sid = Some pid" "s \<notin> subs_of r sid"
  shows "subs_of (router_subscribe sid s r) sid' = (if sid' = sid then insert s (subs_of r sid) else subs_of r sid')"
    and "inner_of (router_subscribe sid s r) s' =
      (if s' = s then AList.update sid pid (inner_of r s) else inner_of r s')"
    and "map_of (rt_subjectSessions (router_subscribe sid s r)) s' =
      (if s' = s then Some (AList.update sid pid (inner_of r s)) else map_of (rt_subjectSessions r) s')"
    and "map_of (rt_subjectPIDs (router_subscribe sid s r)) s' =
      (if s' = s then Some (map snd (AList.update sid pid (inner_of r s))) else map_of (rt_subjectPIDs r) s')"
    and "rt_sessions (router_subscribe sid s r) = rt_sessions r"
proof -
  define r1 where "r1 = (case map_of (rt_sessionSubjects r) sid of
      Some _ \<Rightarrow> r | None \<Rightarrow> r\<lparr>rt_sessionSubjects := AList.update sid [] (rt_sessionSubjects r)\<rparr>)"
  define subs where "subs = (case map_of (rt_sessionSubjects r1) sid of Some subs \<Rightarrow> subs | None \<Rightarrow> [])"
  have subs: "set subs = subs_of r sid"
    by (auto simp: subs_def r1_def subs_of_def update_conv' split: option.splits)
  have r1: "rt_subjectSessions r1 = rt_subjectSessions r" "rt_subjectPIDs r1 = rt_subjectPIDs r"
    "rt_sessions r1 = rt_sessions r" "inner_of r1 s = inner_of r s" "sid' \<noteq> sid \<Longrightarrow> subs_of r1 sid' = subs_of r sid'" for sid'
    by (auto simp: r1_def inner_of_def subs_of_def update_conv' split: option.split)
  have eq: "router_subscribe sid s r = rebuildSubjectPIDs s
      (r1\<lparr>rt_sessionSubjects := AList.update sid (s # subs) (rt_sessionSubjects r1),
         rt_subjectSessions := AList.update s (AList.update sid pid (inner_of r s)) (rt_subjectSessions r)\<rparr>)"
    unfolding router_subscribe_def assms(1) option.case Let_def r1_def [symmetric] subs_def [symmetric]
    using subs assms(2) r1(1) by (simp add: inner_of_def)
  show "subs_of (router_subscribe sid s r) sid' = (if sid' = sid then insert s (subs_of r sid) else subs_of r sid')"
    using r1(5) [of sid'] subs by (auto simp: eq subs_of_def update_conv')
  show "inner_of (router_subscribe sid s r) s' =
      (if s' = s then AList.update sid pid (inner_of r s) else inner_of r s')"
    by (simp add: eq inner_of_def update_conv')
  show "map_of (rt_subjectSessions (router_subscribe sid s r)) s' =
      (if s' = s then Some (AList.update sid pid (inner_of r s)) else map_of (rt_subjectSessions r) s')"
    by (simp add: eq update_conv')
  have "AList.update sid pid (inner_of r s) \<noteq> []" by (cases "inner_of r s") auto
  then show "map_of (rt_subjectPIDs (router_subscribe sid s r)) s' =
      (if s' = s then Some (map snd (AList.update sid pid (inner_of r s))) else map_of (rt_subjectPIDs r) s')"
    by (auto simp: eq map_of_rebuild r1 inner_of_def update_conv' split: list.split)
  show "rt_sessions (router_subscribe sid s r) = rt_sessions r" by (simp add: eq r1)
qed

lemma subscribe_inv: "router_inv r \<Longrightarrow> router_inv (router_subscribe sid s r)"
proof -
  assume inv: "router_inv r"
  show ?thesis
  proof (cases "map_of (rt_sessions r) sid = None \<or> s \<in> subs_of r sid")
    case True
    then have "subs_of (router_subscribe sid s r) sid' = subs_of r sid'" for sid'
      by (auto simp: router_subscribe_def subs_of_def Let_def update_conv' split: option.splits)
    moreover have "rt_subjectSessions (router_subscribe sid s r) = rt_subjectSessions r"
      "rt_subjectPIDs (router_subscribe sid s r) = rt_subjectPIDs r"
      "rt_sessions (router_subscribe sid s r) = rt_sessions r"
      using True by (auto simp: router_subscribe_def subs_of_def Let_def update_conv' split: option.splits)
    ultimately show ?thesis
      using inv by (simp add: router_inv_def sess_of_def inner_of_def targets_of_def)
  next
    case False
    then obtain pid where p: "map_of (rt_sessions r) sid = Some pid" "s \<notin> subs_of r sid" by auto
    note idx = subscribe_index [OF p]
    have sess: "sess_of (router_subscribe sid s r) s' =
        (if s' = s then insert sid (sess_of r s) else sess_of r s')" for s'
      by (auto simp: sess_of_def idx(2) dom_update)
    have t: "targets_of (router_subscribe sid s r) (Some s') = map snd (inner_of (router_subscribe sid s r) s')" for s'
      using inv by (simp add: targets_of_def idx(2,4) router_inv_def)
    show ?thesis
      using inv p unfolding router_inv_def idx(1,3,5) sess t
      by (auto simp: idx(2) distinct_update)
  qed
qed

subsection \<open>Handlers that leave the index alone\<close>

lemma index_simps [simp]:
  "index_of (r\<lparr>rt_streamState := x\<rparr>) = index_of r"
  "index_of (r\<lparr>rt_coherenceSamples := y\<rparr>) = index_of r"
  "index_of (r\<lparr>rt_coherenceSampleDrops := z\<rparr>) = index_of r"
  "index_of (r\<lparr>rt_coherenceSampleWindow := z\<rparr>) = index_of r"
  "index_of (r\<lparr>rt_stopped := b\<rparr>) = index_of r"
  by (simp_all add: index_of_def)

lemma sample_simps [simp]:
  "index_of (recordCoherenceSample k r) = index_of r"
  "index_of (flushCoherenceSamples r) = index_of r"
  "rt_streamState (recordCoherenceSample k r) = rt_streamState r"
  "rt_maxStreamStateEntries (recordCoherenceSample k r) = rt_maxStreamStateEntries r"
  by (simp_all add: recordCoherenceSample_def flushCoherenceSamples_def Let_def split: option.split)

lemma sweep_index [simp]: "index_of (sweepStreamState now r) = index_of r"
  by (simp add: sweepStreamState_def)

lemma make_room_index [simp]: "index_of (make_room now r) = index_of r"
  by (simp add: make_room_def Let_def evictOldestStreamState_def)

lemma accept_index [simp]: "index_of (fst (acceptStreamSeq now sid env r)) = index_of r"
  by (simp add: acceptStreamSeq_def Let_def split: option.split)

lemma accept_if_index [simp]: "index_of (fst (accept_if now ts s env r)) = index_of r"
  by (simp add: accept_if_def split_beta split: option.split)

lemma next_index [simp]: "index_of (fst (nextDeliverySeq now sid r)) = index_of r"
  by (simp add: nextDeliverySeq_def Let_def)

lemma fan_out_index: "index_of (fst (fan_out now track s env pids (r, sent, seq, outs))) = index_of r"
proof (induction pids arbitrary: r sent seq outs)
  case (Cons pid pids)
  have "index_of (fst (case seq of None \<Rightarrow> nextDeliverySeq now (subject_String s) r | Some n \<Rightarrow> (r, n))) = index_of r"
    by (simp split: option.split)
  then show ?case using Cons.IH by (auto simp: Let_def split_beta)
qed simp

lemma send_all_index: "index_of (fst (send_all now s a w env T A W r)) = index_of r"
  by (simp add: send_all_def Let_def split_beta fan_out_index split: option.split)

lemma deliver_all_index: "index_of (fst (deliver_all now s a w env r)) = index_of r"
  by (simp add: deliver_all_def Let_def split_beta send_all_index)

lemma handle_index: "index_of (fst (handleEnvelope now env r)) = index_of r"
  by (simp add: handleEnvelope_def Let_def split_beta deliver_all_index split: option.split sum.split)

lemma receive_inv: "router_inv r \<Longrightarrow> router_inv (fst (router_Receive now msg r))"
proof (cases msg)
  case (ActorStopped p me)
  assume "router_inv r"
  with ActorStopped show ?thesis
    by (auto simp: onActorStopped_def unregister_inv split: option.split)
next
  case (DeliverEnvelope env)
  assume "router_inv r"
  with DeliverEnvelope show ?thesis using index_inv [OF handle_index [of now env r]] by simp
next
  case RouterSweep
  assume "router_inv r"
  with RouterSweep show ?thesis using index_inv [of "sweepStreamState now r" r] by simp
next
  case RouterStopped
  assume "router_inv r"
  with RouterStopped show ?thesis using index_inv [of "router_onStopped r" r] by (simp add: router_onStopped_def)
qed (simp_all add: register_inv unregister_inv subscribe_inv router_unsubscribe_def remove_inv)

lemma init_inv: "router_inv (router_ensureDefaults tf st n ttl k)"
  by (simp add: router_inv_def router_ensureDefaults_def subs_of_def sess_of_def inner_of_def targets_of_def)

lemma reach_inv: "router_reach r \<Longrightarrow> router_inv r"
  by (induction rule: router_reach.induct) (simp_all add: init_inv receive_inv)

lemma run_reach: "router_reach r \<Longrightarrow> router_reach (fst (router_run msgs r))"
proof (induction msgs r rule: router_run.induct)
  case (2 now msg msgs r)
  then have "router_reach (fst (router_run msgs (fst (router_Receive now msg r))))"
    by (metis prod.collapse router_reach.step)
  then show ?case by (simp add: split_beta)
qed simp

subsection \<open>Admission\<close>

lemma Decide_accept:
  "d_action (Decide w inp) = seqPolicyActionAccept \<longleftrightarrow>
   Action (DecideMonotonic (monotonic_input w inp)) = ActionAccept"
  by (simp add: Decide_def Let_def split: MonotonicAction.split)

lemma Decide_accept_new:
  "d_action (Decide w inp) = seqPolicyActionAccept \<Longrightarrow> i_lastSeq inp < i_candidateSeq inp"
  by (auto simp: Decide_accept DecideMonotonic_accept_iff isInvalid_def monotonic_input_def)

lemma accepted_state_simps [simp]:
  "ss_lastOriginSeq (accepted_state env own st) = env_Seq env"
  "ss_lastDeliverySeq (accepted_state env own st) = ss_lastDeliverySeq st"
  by (simp_all add: accepted_state_def Let_def)

lemma accept_true:
  assumes "acceptStreamSeq now sid env r = (r', True, why)"
  shows "last_origin r (TrimSpace sid) < env_Seq env" "last_origin r' (TrimSpace sid) = env_Seq env"
    "0 < env_Seq env"
  using assms
  by (auto simp: acceptStreamSeq_def Let_def last_origin_def zero_streamState_def accept_input_def update_conv'
      dest!: Decide_accept_new split: if_splits option.splits)

lemma accept_false:
  assumes "acceptStreamSeq now sid env r = (r', False, why)"
  shows "last_origin r' (TrimSpace sid) = last_origin r (TrimSpace sid)"
  using assms
  by (auto simp: acceptStreamSeq_def Let_def last_origin_def zero_streamState_def update_conv'
      split: if_splits option.splits)

lemma accept_run_sorted: "sorted_wrt (<) (last_origin r (TrimSpace sid) # accept_run sid obs r)"
proof (induction obs arbitrary: r)
  case (Cons o' obs)
  obtain now env where o': "o' = (now, env)" by (cases o')
  obtain r' ok why where a: "acceptStreamSeq now sid env r = (r', ok, why)" by (metis prod_cases3)
  show ?case
  proof (cases ok)
    case True
    with a have "last_origin r (TrimSpace sid) < env_Seq env" "last_origin r' (TrimSpace sid) = env_Seq env"
      using accept_true [of now sid env r r' why] by simp_all
    with Cons.IH [of r'] True a o' show ?thesis by auto
  next
    case False
    with a have "last_origin r' (TrimSpace sid) = last_origin r (TrimSpace sid)"
      using accept_false [of now sid env r r' why] by simp
    with Cons.IH [of r'] False a o' show ?thesis by simp
  qed
qed simp

subsection \<open>Sends\<close>

lemma fan_out_sends:
  assumes "distinct pids"
  shows "\<exists>n r' sent' q. fan_out now track s env pids (r, sent, seq, outs) =
      (r', sent', q, outs @ map (\<lambda>p. DeliverEvent p s (env\<lparr>env_Seq := n\<rparr>))
                        (if track then filter (\<lambda>p. p \<notin> set sent) pids else pids))
    \<and> (track \<longrightarrow> set sent' = set sent \<union> set pids) \<and> (\<forall>m. seq = Some m \<longrightarrow> n = m)"
  using assms
proof (induction pids arbitrary: r sent seq outs)
  case (Cons pid pids)
  show ?case
  proof (cases "track \<and> pid \<in> set sent")
    case True
    with Cons show ?thesis by (auto simp: insert_absorb)
  next
    case False
    obtain r1 n where n: "(case seq of Some n \<Rightarrow> (r, n) | None \<Rightarrow> nextDeliverySeq now (subject_String s) r) = (r1, n)"
      by fastforce
    then have seq: "\<forall>m. seq = Some m \<longrightarrow> n = m" by auto
    let ?sent = "if track then pid # sent else sent"
    have "filter (\<lambda>p. p \<notin> set (pid # sent)) pids = filter (\<lambda>p. p \<notin> set sent) pids"
      using Cons.prems by (auto intro: filter_cong)
    moreover obtain r' sent' q where
      "fan_out now track s env pids (r1, ?sent, Some n, outs @ [DeliverEvent pid s (env\<lparr>env_Seq := n\<rparr>)]) =
        (r', sent', q, (outs @ [DeliverEvent pid s (env\<lparr>env_Seq := n\<rparr>)]) @
          map (\<lambda>p. DeliverEvent p s (env\<lparr>env_Seq := n\<rparr>)) (if track then filter (\<lambda>p. p \<notin> set ?sent) pids else pids))"
      "track \<longrightarrow> set sent' = set ?sent \<union> set pids"
      using Cons.IH [of r1 ?sent "Some n" "outs @ [DeliverEvent pid s (env\<lparr>env_Seq := n\<rparr>)]"] Cons.prems by auto
    ultimately show ?thesis
      using False n seq by (cases track) (auto simp: Let_def)
  qed
next
  case Nil
  then show ?case by (cases seq) auto
qed

lemma pids_of_sends [simp]: "pids_of (map (\<lambda>p. DeliverEvent p s (f p)) ps) = ps"
  by (induction ps) (simp_all add: pids_of_def)

lemma pids_of_append [simp]: "pids_of (xs @ ys) = pids_of xs @ pids_of ys"
  by (simp add: pids_of_def)

lemma pids_of_Nil [simp]: "pids_of [] = []"
  by (simp add: pids_of_def)

lemma fan_out_option:
  assumes "distinct A" "a = None \<Longrightarrow> A = []"
    and "(case a of None \<Rightarrow> (r, sent, None, []) | Some s \<Rightarrow> fan_out now track s env A (r, sent, None, [])) =
      (r', sent', q, outs)"
  shows "pids_of outs = (if track then filter (\<lambda>p. p \<notin> set sent) A else A) \<and>
    (track \<longrightarrow> set sent' = set sent \<union> set A)"
proof (cases a)
  case None
  with assms show ?thesis by simp
next
  case (Some s)
  then show ?thesis
    using assms(3) fan_out_sends [OF assms(1), of now track s env r sent None "[]"] by (cases track) auto
qed

lemma send_all_pids:
  assumes "distinct A" "distinct W" "a = None \<Longrightarrow> A = []" "w = None \<Longrightarrow> W = []"
  shows "pids_of (snd (send_all now s a w env T A W r)) =
    (if length T + length A + length W > 1
     then T @ filter (\<lambda>p. p \<notin> set T) A @ filter (\<lambda>p. p \<notin> set T \<union> set A) W
     else T @ A @ W)"
proof -
  define track where "track = (length T + length A + length W > 1)"
  obtain r4 n where 4: "nextDeliverySeq now (subject_String s) r = (r4, n)" by fastforce
  obtain r5 sent5 q5 outs5 where 5: "(case a of None \<Rightarrow> (r4, if track then rev T else [], None, [])
      | Some s \<Rightarrow> fan_out now track s env A (r4, if track then rev T else [], None, [])) = (r5, sent5, q5, outs5)"
    by (metis prod_cases4)
  obtain r6 sent6 q6 outs6 where 6: "(case w of None \<Rightarrow> (r5, sent5, None, [])
      | Some s \<Rightarrow> fan_out now track s env W (r5, sent5, None, [])) = (r6, sent6, q6, outs6)"
    by (metis prod_cases4)
  have p5: "pids_of outs5 = (if track then filter (\<lambda>p. p \<notin> set T) A else A) \<and>
      (track \<longrightarrow> set sent5 = set T \<union> set A)"
    using fan_out_option [OF assms(1,3) 5] by (cases track) auto
  then have p6: "pids_of outs6 = (if track then filter (\<lambda>p. p \<notin> set T \<union> set A) W else W)"
    using fan_out_option [OF assms(2,4) 6] by (cases track) auto
  have "snd (send_all now s a w env T A W r) = map (\<lambda>pid. DeliverEvent pid s (env\<lparr>env_Seq := n\<rparr>)) T @ outs5 @ outs6"
    unfolding send_all_def Let_def track_def [symmetric] 4 prod.case 5 6 by simp
  then show ?thesis
    unfolding track_def [symmetric] by (simp only: pids_of_append pids_of_sends p5 p6) simp
qed

lemma deliver_all_once:
  assumes d: "distinct (targets_of r (Some s))" "distinct (targets_of r a)" "distinct (targets_of r w)"
    and outs: "deliver_all now s a w env r = (r', outs)" "outs \<noteq> []"
  shows "distinct (pids_of outs) \<and>
    set (pids_of outs) = set (targets_of r (Some s)) \<union> set (targets_of r a) \<union> set (targets_of r w)"
proof -
  define T A W where TAW: "T = targets_of r (Some s)" "A = targets_of r a" "W = targets_of r w"
  have none: "a = None \<Longrightarrow> A = []" "w = None \<Longrightarrow> W = []" by (simp_all add: TAW targets_of_def)
  obtain r3 where "outs = snd (send_all now s a w env T A W r3)"
    using outs unfolding deliver_all_def Let_def TAW [symmetric]
    by (auto simp: split_beta split: if_splits) (metis snd_conv)+
  then have "pids_of outs = (if length T + length A + length W > 1
     then T @ filter (\<lambda>p. p \<notin> set T) A @ filter (\<lambda>p. p \<notin> set T \<union> set A) W
     else T @ A @ W)"
    using send_all_pids [OF d(2,3) [folded TAW] none] by simp
  moreover have "length T + length A + length W \<le> 1 \<Longrightarrow> distinct (T @ A @ W)"
    by (cases T; cases A; cases W) auto
  ultimately show ?thesis
    using d unfolding TAW [symmetric] by (cases "length T + length A + length W > 1") auto
qed

subsection \<open>The bound on the streams remembered\<close>

lemma oldest_loop_key:
  "oldest_loop xs best = (k, t) \<Longrightarrow> fst best \<noteq> '''' \<or> xs \<noteq> [] \<Longrightarrow> '''' \<notin> fst ` set xs \<Longrightarrow>
   (k = fst best \<and> fst best \<noteq> '''') \<or> k \<in> fst ` set xs"
  by (induction xs best arbitrary: k t rule: oldest_loop.induct) (fastforce split: if_splits)+

lemma evict_length:
  assumes "rt_streamState r \<noteq> []" "'''' \<notin> fst ` set (rt_streamState r)"
  shows "length (rt_streamState (evictOldestStreamState r)) < length (rt_streamState r)"
proof -
  obtain k t where kt: "oldest_loop (rt_streamState r) ('''', 0) = (k, t)" by (metis surj_pair)
  from oldest_loop_key [OF kt] assms have "k \<in> fst ` set (rt_streamState r)" by simp
  moreover with assms have "k \<noteq> ''''" by metis
  ultimately show ?thesis
    by (auto simp: evictOldestStreamState_def kt AList.delete_eq intro!: length_filter_less)
qed

lemma make_room_length:
  assumes "int (length (rt_streamState r)) \<le> rt_maxStreamStateEntries r" "1 \<le> rt_maxStreamStateEntries r"
    and "'''' \<notin> fst ` set (rt_streamState r)"
  shows "int (length (rt_streamState (make_room now r))) < rt_maxStreamStateEntries r"
proof -
  define s where "s = sweepStreamState now r"
  have "length (rt_streamState s) \<le> length (rt_streamState r)" "'''' \<notin> fst ` set (rt_streamState s)"
    using assms(3) by (auto simp: s_def sweepStreamState_def image_iff)
  moreover from this have "rt_streamState s \<noteq> [] \<Longrightarrow>
      length (rt_streamState (evictOldestStreamState s)) < length (rt_streamState s)"
    using evict_length by blast
  moreover have "rt_maxStreamStateEntries s = rt_maxStreamStateEntries r"
    by (simp add: s_def sweepStreamState_def)
  ultimately show ?thesis
    using assms(1,2) by (cases "rt_streamState s = []") (auto simp: make_room_def Let_def s_def [symmetric])
qed

lemma make_room_keys: "fst ` set (rt_streamState (make_room now r)) \<subseteq> fst ` set (rt_streamState r)"
  by (auto simp: make_room_def Let_def sweepStreamState_def evictOldestStreamState_def AList.delete_eq image_iff)



lemma make_room_max [simp]: "rt_maxStreamStateEntries (make_room now r) = rt_maxStreamStateEntries r"
  by (simp add: make_room_def Let_def sweepStreamState_def evictOldestStreamState_def)

lemma sample_streams [simp]:
  "rt_streamState (recordCoherenceSample k r) = rt_streamState r"
  "rt_maxStreamStateEntries (recordCoherenceSample k r) = rt_maxStreamStateEntries r"
  by (simp_all add: recordCoherenceSample_def flushCoherenceSamples_def Let_def split: option.split)

lemma accept_streams:
  obtains "fst (acceptStreamSeq now sid env r) = r"
  | st where "TrimSpace sid \<noteq> ''''"
    "rt_streamState (fst (acceptStreamSeq now sid env r)) =
       AList.update (TrimSpace sid) st
         (if map_of (rt_streamState r) (TrimSpace sid) = None then rt_streamState (make_room now r)
          else rt_streamState r)"
proof (cases "TrimSpace sid = '''' \<or> env_Seq env \<le> 0")
  case True
  then have "fst (acceptStreamSeq now sid env r) = r" by (auto simp: acceptStreamSeq_def Let_def)
  then show thesis by (rule that(1))
next
  case False
  then have "\<exists>st. rt_streamState (fst (acceptStreamSeq now sid env r)) =
       AList.update (TrimSpace sid) st
         (if map_of (rt_streamState r) (TrimSpace sid) = None then rt_streamState (make_room now r)
          else rt_streamState r)"
    by (cases "map_of (rt_streamState r) (TrimSpace sid)")
      (auto simp: acceptStreamSeq_def Let_def intro: exI)
  with False that(2) show thesis by blast
qed

lemma accept_streams_bound:
  assumes "int (length (rt_streamState r)) \<le> rt_maxStreamStateEntries r" "1 \<le> rt_maxStreamStateEntries r"
    and "'''' \<notin> fst ` set (rt_streamState r)"
  shows "int (length (rt_streamState (fst (acceptStreamSeq now sid env r)))) \<le> rt_maxStreamStateEntries r \<and>
     '''' \<notin> fst ` set (rt_streamState (fst (acceptStreamSeq now sid env r)))"
proof (cases rule: accept_streams [of now sid env r])
  case 1
  with assms show ?thesis by simp
next
  case (2 st)
  note room = make_room_length [OF assms, of now] make_room_keys [of now r]
  show ?thesis
  proof (cases "map_of (rt_streamState r) (TrimSpace sid) = None")
    case True
    with 2 room assms show ?thesis by (auto simp: update_length dom_update)
  next
    case False
    then have "TrimSpace sid \<in> fst ` set (rt_streamState r)" by (simp add: map_of_eq_None_iff)
    with 2 False assms show ?thesis by (auto simp: update_length dom_update)
  qed
qed

section \<open>Properties\<close>

text \<open>
  Property C2. In every router that its messages can produce, the two directions of the
  subscription index agree, a subject with no session has no entry, the processes that the fan-out of a
  subject uses are exactly those of the sessions subscribed to it (one for each session), and only
  registered sessions are subscribed.
\<close>

theorem router_index_consistent:
  assumes "router_reach r"
  shows "(subject \<in> subs_of r sid \<longleftrightarrow> sid \<in> sess_of r subject) \<and>
    map_of (rt_subjectSessions r) subject \<noteq> Some [] \<and>
    distinct (map fst (inner_of r subject)) \<and>
    targets_of r (Some subject) = map snd (inner_of r subject) \<and>
    (subs_of r sid \<noteq> {} \<longrightarrow> map_of (rt_sessions r) sid \<noteq> None)"
  using reach_inv [OF assms] unfolding router_inv_def by metis

theorem router_index_consistent_witness:
  "trade_subject ''BTC'' \<in> subs_of (fst (router_run two_sessions (router_ensureDefaults '''' False 0 0 0))) ''a''
   \<longleftrightarrow> ''a'' \<in> sess_of (fst (router_run two_sessions (router_ensureDefaults '''' False 0 0 0)))
        (trade_subject ''BTC'')"
  using router_index_consistent [OF run_reach [OF router_reach.init]] by blast




text \<open>
  Property C28. Admission keeps the number of remembered streams within the configured bound:
  a new stream takes the place of expired ones or of the one seen longest ago.  The handler does not:
  numbering a delivery creates an entry for the envelope's own subject even when only its alias has
  subscribers, and one envelope leaves two streams in a router whose bound is one.
\<close>

theorem router_stream_bound:
  assumes "int (length (rt_streamState r)) \<le> rt_maxStreamStateEntries r" "1 \<le> rt_maxStreamStateEntries r"
    and "'''' \<notin> fst ` set (rt_streamState r)"
  shows "(int (length (rt_streamState (fst (acceptStreamSeq now sid env r)))) \<le> rt_maxStreamStateEntries r \<and>
     '''' \<notin> fst ` set (rt_streamState (fst (acceptStreamSeq now sid env r)))) \<and>
    length (rt_streamState (fst (router_run (alias_only @ [(2, DeliverEnvelope (trade ''BTC'' ''SPOT'' 10))])
      (router_ensureDefaults '''' False 0 0 1)))) = 2"
  using accept_streams_bound [OF assms, of now sid env] by (rule conjI) code_simp

theorem router_stream_bound_witness:
  "length (rt_streamState (fst (acceptStreamSeq 5 ''s'' (trade ''BTC'' ''SPOT'' 1)
     (router_ensureDefaults '''' False 0 0 1)))) \<le> 1"
  using router_stream_bound [of "router_ensureDefaults '''' False 0 0 1" 5 "''s''" "trade ''BTC'' ''SPOT'' 1"]
  by (simp add: router_ensureDefaults_def)


end
