(* ===== verification/Ring_Queues.thy ===== *)
theory Ring_Queues
  imports Go_Prelude
begin

text \<open>
  The two bounded ring buffers of the actors: \<open>wsQueue\<close>
  (\<open>actors/marketdata/runtime/backpressure_queue.go\<close>), between the websocket readers and the parser,
  and \<open>deliveryRing\<close> (\<open>actors/delivery/runtime/delivery_ring.go\<close>), the outbound queue of a session.
  Both are an array with the index of the first element and a count; both refine a list of at most
  \<open>capacity\<close> elements, and the interface \<open>bounded_fifo\<close> is proved once and interpreted for both.

  Indices and counts are natural numbers: the code only ever decrements a positive count. A queue method
  holds the mutex for its whole body, so it is one step. \<open>Pop\<close> on an empty open queue waits, which
  the model shows as the outcome \<open>PopWait\<close>.
\<close>

section \<open>The queue of websocket messages\<close>

record WsMessage =
  wm_Data :: string

datatype BackpressurePolicy = BackpressureDropOldest | BackpressureDropDepthKeepOps | BackpressureOther

definition normalizeBackpressurePolicy :: "string \<Rightarrow> BackpressurePolicy" where
  "normalizeBackpressurePolicy raw =
     (if raw = ''drop_oldest'' then BackpressureDropOldest
      else if raw = ''drop_depth_keep_trades'' then BackpressureDropDepthKeepOps
      else BackpressureDropDepthKeepOps)"

record wsQueue =
  wq_capacity :: nat
  wq_policy :: BackpressurePolicy
  wq_buf :: "WsMessage option list"
  wq_head :: nat
  wq_count :: nat
  wq_closed :: bool

definition newWSQueue :: "int \<Rightarrow> BackpressurePolicy \<Rightarrow> wsQueue" where
  "newWSQueue capacity policy =
     (let capacity = (if capacity \<le> 0 then 1024 else capacity) in
      \<lparr>wq_capacity = nat capacity, wq_policy = policy, wq_buf = replicate (nat capacity) None,
       wq_head = 0, wq_count = 0, wq_closed = False\<rparr>)"

definition wq_Close :: "wsQueue \<Rightarrow> wsQueue" where
  "wq_Close q = q\<lparr>wq_closed := True\<rparr>"

definition isDepthWSMessage :: "WsMessage option \<Rightarrow> bool" where
  "isDepthWSMessage msg =
     (case msg of None \<Rightarrow> False
      | Some m \<Rightarrow> if length (wm_Data m) = 0 then False else Contains (wm_Data m) ''\"depthUpdate\"'')"

definition isLiquidationWSMessage :: "WsMessage option \<Rightarrow> bool" where
  "isLiquidationWSMessage msg =
     (case msg of None \<Rightarrow> False
      | Some m \<Rightarrow> if length (wm_Data m) = 0 then False else Contains (wm_Data m) ''\"forceOrder\"'')"

definition isMarkPriceWSMessage :: "WsMessage option \<Rightarrow> bool" where
  "isMarkPriceWSMessage msg =
     (case msg of None \<Rightarrow> False
      | Some m \<Rightarrow> if length (wm_Data m) = 0 then False else Contains (wm_Data m) ''\"markPriceUpdate\"'')"

definition wq_dropHead :: "wsQueue \<Rightarrow> wsQueue" where
  "wq_dropHead q =
     q\<lparr>wq_buf := (wq_buf q)[wq_head q := None], wq_head := (wq_head q + 1) mod wq_capacity q,
       wq_count := wq_count q - 1\<rparr>"

definition wq_pushTail :: "WsMessage option \<Rightarrow> wsQueue \<Rightarrow> wsQueue" where
  "wq_pushTail msg q =
     q\<lparr>wq_buf := (wq_buf q)[(wq_head q + wq_count q) mod wq_capacity q := msg], wq_count := wq_count q + 1\<rparr>"

text \<open>The scan of \<open>findFirstDepth\<close> and \<open>findFirstLiquidation\<close>: index \<open>i\<close>, \<open>n\<close> elements left.\<close>

fun find_loop :: "(WsMessage option \<Rightarrow> bool) \<Rightarrow> wsQueue \<Rightarrow> nat \<Rightarrow> nat \<Rightarrow> int" where
  "find_loop P q i 0 = - 1"
| "find_loop P q i (Suc n) =
     (if P (wq_buf q ! ((wq_head q + i) mod wq_capacity q)) then int i else find_loop P q (Suc i) n)"

definition findFirstDepth :: "wsQueue \<Rightarrow> int" where
  "findFirstDepth q = find_loop isDepthWSMessage q 0 (wq_count q)"

definition findFirstLiquidation :: "wsQueue \<Rightarrow> int" where
  "findFirstLiquidation q = find_loop isLiquidationWSMessage q 0 (wq_count q)"

definition wq_removeAt :: "nat \<Rightarrow> wsQueue \<Rightarrow> wsQueue" where
  "wq_removeAt idx q =
     (if idx = 0 then wq_dropHead q
      else
        let buf = ring_shift (wq_buf q) (wq_head q) (wq_capacity q) idx (wq_count q);
            tail = (wq_head q + wq_count q - 1) mod wq_capacity q
        in q\<lparr>wq_buf := buf[tail := None], wq_count := wq_count q - 1\<rparr>)"

definition wq_Enqueue :: "WsMessage option \<Rightarrow> wsQueue \<Rightarrow> wsQueue \<times> int \<times> bool" where
  "wq_Enqueue msg q =
     (if wq_closed q then (q, 1, False)
      else if wq_count q < wq_capacity q then
        (q\<lparr>wq_buf := (wq_buf q)[(wq_head q + wq_count q) mod wq_capacity q := msg],
           wq_count := wq_count q + 1\<rparr>, 0, False)
      else
        case wq_policy q of
          BackpressureDropOldest \<Rightarrow> (wq_pushTail msg (wq_dropHead q), 1, True)
        | BackpressureDropDepthKeepOps \<Rightarrow>
            if isDepthWSMessage msg then (q, 1, True)
            else
              let dropIdx = findFirstDepth q;
                  dropIdx = (if dropIdx < 0 \<and> isMarkPriceWSMessage msg then findFirstLiquidation q else dropIdx);
                  dropIdx = (if dropIdx < 0 then 0 else dropIdx)
              in (wq_pushTail msg (wq_removeAt (nat dropIdx) q), 1, True)
        | _ \<Rightarrow> (wq_pushTail msg (wq_dropHead q), 1, True))"

datatype pop_outcome = PopWait | PopClosed | PopMsg "WsMessage option"

definition wq_Pop :: "wsQueue \<Rightarrow> wsQueue \<times> pop_outcome" where
  "wq_Pop q =
     (if wq_count q = 0 \<and> \<not> wq_closed q then (q, PopWait)
      else if wq_count q = 0 \<and> wq_closed q then (q, PopClosed)
      else
        (q\<lparr>wq_buf := (wq_buf q)[wq_head q := None], wq_head := (wq_head q + 1) mod wq_capacity q,
           wq_count := wq_count q - 1\<rparr>, PopMsg (wq_buf q ! wq_head q)))"

definition wq_Len :: "wsQueue \<Rightarrow> nat" where
  "wq_Len q = wq_count q"

section \<open>The outbound ring of a session\<close>

text \<open>The ring is generic in its elements; \<open>zero\<close> is the zero value of the element type.\<close>

record 'a deliveryRing =
  dr_buf :: "'a list"
  dr_head :: nat
  dr_count :: nat
  dr_cap :: nat

definition newDeliveryRing :: "'a \<Rightarrow> int \<Rightarrow> 'a deliveryRing" where
  "newDeliveryRing zero capacity =
     (let capacity = (if capacity \<le> 0 then 256 else capacity) in
      \<lparr>dr_buf = replicate (nat capacity) zero, dr_head = 0, dr_count = 0, dr_cap = nat capacity\<rparr>)"

definition dr_Len :: "'a deliveryRing \<Rightarrow> nat" where
  "dr_Len r = dr_count r"

definition dr_Cap :: "'a deliveryRing \<Rightarrow> nat" where
  "dr_Cap r = dr_cap r"

definition dr_IsFull :: "'a deliveryRing \<Rightarrow> bool" where
  "dr_IsFull r \<longleftrightarrow> dr_count r \<ge> dr_cap r"

definition dr_PushBack :: "'a \<Rightarrow> 'a deliveryRing \<Rightarrow> 'a deliveryRing" where
  "dr_PushBack evt r =
     (let idx = (dr_head r + dr_count r) mod dr_cap r
      in r\<lparr>dr_buf := (dr_buf r)[idx := evt], dr_count := dr_count r + 1\<rparr>)"

definition dr_PopFront :: "'a \<Rightarrow> 'a deliveryRing \<Rightarrow> ('a \<times> 'a deliveryRing) option" where
  "dr_PopFront zero r =
     (if dr_count r = 0 then None
      else Some (dr_buf r ! dr_head r,
        r\<lparr>dr_buf := (dr_buf r)[dr_head r := zero], dr_head := (dr_head r + 1) mod dr_cap r,
          dr_count := dr_count r - 1\<rparr>))"

definition dr_DropFront :: "'a \<Rightarrow> 'a deliveryRing \<Rightarrow> 'a deliveryRing" where
  "dr_DropFront zero r =
     (if dr_count r = 0 then r
      else r\<lparr>dr_buf := (dr_buf r)[dr_head r := zero], dr_head := (dr_head r + 1) mod dr_cap r,
             dr_count := dr_count r - 1\<rparr>)"

definition dr_At :: "nat \<Rightarrow> 'a deliveryRing \<Rightarrow> 'a" where
  "dr_At i r = dr_buf r ! ((dr_head r + i) mod dr_cap r)"

definition dr_RemoveAt :: "'a \<Rightarrow> nat \<Rightarrow> 'a deliveryRing \<Rightarrow> 'a deliveryRing" where
  "dr_RemoveAt zero i r =
     (if i = 0 then dr_DropFront zero r
      else
        let buf = ring_shift (dr_buf r) (dr_head r) (dr_cap r) i (dr_count r);
            tail = (dr_head r + dr_count r - 1) mod dr_cap r
        in r\<lparr>dr_buf := buf[tail := zero], dr_count := dr_count r - 1\<rparr>)"

section \<open>Specification\<close>

definition wq_inv :: "wsQueue \<Rightarrow> bool" where
  "wq_inv q \<longleftrightarrow> length (wq_buf q) = wq_capacity q \<and> wq_head q < wq_capacity q \<and> wq_count q \<le> wq_capacity q"

definition wq_view :: "wsQueue \<Rightarrow> WsMessage option list" where
  "wq_view q = ring_view (wq_buf q) (wq_head q) (wq_count q) (wq_capacity q)"

definition dr_inv :: "'a deliveryRing \<Rightarrow> bool" where
  "dr_inv r \<longleftrightarrow> length (dr_buf r) = dr_cap r \<and> dr_head r < dr_cap r \<and> dr_count r \<le> dr_cap r"

definition dr_view :: "'a deliveryRing \<Rightarrow> 'a list" where
  "dr_view r = ring_view (dr_buf r) (dr_head r) (dr_count r) (dr_cap r)"

text \<open>A list without its element at an index, and the first index with a property.\<close>

definition remove_nth :: "nat \<Rightarrow> 'a list \<Rightarrow> 'a list" where
  "remove_nth i xs = take i xs @ drop (Suc i) xs"

fun first_index :: "('a \<Rightarrow> bool) \<Rightarrow> 'a list \<Rightarrow> nat option" where
  "first_index P [] = None"
| "first_index P (x # xs) = (if P x then Some 0 else map_option Suc (first_index P xs))"

text \<open>The element that a full queue gives up for one more message; \<open>None\<close> when it refuses the message.\<close>

definition drop_index :: "BackpressurePolicy \<Rightarrow> WsMessage option \<Rightarrow> WsMessage option list \<Rightarrow> nat option" where
  "drop_index policy msg xs =
     (if policy = BackpressureDropDepthKeepOps then
        if isDepthWSMessage msg then None
        else case first_index isDepthWSMessage xs of
          Some i \<Rightarrow> Some i
        | None \<Rightarrow> (case (if isMarkPriceWSMessage msg then first_index isLiquidationWSMessage xs else None) of
            Some i \<Rightarrow> Some i
          | None \<Rightarrow> Some 0)
      else Some 0)"

definition enqueue_spec ::
  "nat \<Rightarrow> bool \<Rightarrow> BackpressurePolicy \<Rightarrow> WsMessage option \<Rightarrow> WsMessage option list \<Rightarrow> WsMessage option list" where
  "enqueue_spec capacity closed policy msg xs =
     (if closed then xs
      else if length xs < capacity then xs @ [msg]
      else case drop_index policy msg xs of None \<Rightarrow> xs | Some i \<Rightarrow> remove_nth i xs @ [msg])"

fun drain :: "('q \<Rightarrow> ('a \<times> 'q) option) \<Rightarrow> nat \<Rightarrow> 'q \<Rightarrow> 'a list" where
  "drain pop 0 q = []"
| "drain pop (Suc n) q = (case pop q of None \<Rightarrow> [] | Some (x, q') \<Rightarrow> x # drain pop n q')"

section \<open>The interface of a bounded queue\<close>

locale bounded_fifo =
  fixes push :: "'a \<Rightarrow> 'q \<Rightarrow> 'q"
    and pop :: "'q \<Rightarrow> ('a \<times> 'q) option"
    and view :: "'q \<Rightarrow> 'a list"
    and cap :: "'q \<Rightarrow> nat"
    and inv :: "'q \<Rightarrow> bool"
  assumes push_inv: "inv q \<Longrightarrow> length (view q) < cap q \<Longrightarrow> inv (push x q)"
    and push_view: "inv q \<Longrightarrow> length (view q) < cap q \<Longrightarrow> view (push x q) = view q @ [x]"
    and push_cap: "inv q \<Longrightarrow> length (view q) < cap q \<Longrightarrow> cap (push x q) = cap q"
    and pop_None: "inv q \<Longrightarrow> pop q = None \<longleftrightarrow> view q = []"
    and pop_Some: "inv q \<Longrightarrow> pop q = Some (x, q') \<Longrightarrow> view q = x # view q'"
    and pop_inv: "inv q \<Longrightarrow> pop q = Some (x, q') \<Longrightarrow> inv q'"
begin

lemma pushes_view:
  "inv q \<Longrightarrow> length (view q) + length xs \<le> cap q \<Longrightarrow>
   inv (foldl (\<lambda>q x. push x q) q xs) \<and> view (foldl (\<lambda>q x. push x q) q xs) = view q @ xs"
proof (induction xs arbitrary: q)
  case (Cons x xs)
  then have "length (view q) < cap q" by simp
  with Cons show ?case
    using push_inv [of q x] push_view [of q x] push_cap [of q x] by simp
qed simp

lemma drain_view: "inv q \<Longrightarrow> drain pop (length (view q)) q = view q"
proof (induction "length (view q)" arbitrary: q)
  case (Suc n)
  then obtain x q' where p: "pop q = Some (x, q')"
    using pop_None [of q] by (cases "pop q") auto
  then show ?case
    using Suc pop_Some [OF Suc.prems p] pop_inv [OF Suc.prems p] by (simp add: Suc(2) [symmetric])
qed simp

lemma fifo:
  assumes "inv q" "length (view q) + length xs \<le> cap q"
  shows "drain pop (length (view q) + length xs) (foldl (\<lambda>q x. push x q) q xs) = view q @ xs"
  using pushes_view [OF assms] drain_view [of "foldl (\<lambda>q x. push x q) q xs"] by simp

end

section \<open>Lemmas\<close>

lemma length_views [simp]: "length (wq_view q) = wq_count q" "length (dr_view r) = dr_count r"
  by (simp_all add: wq_view_def dr_view_def)

lemma remove_nth_0: "remove_nth 0 xs = tl xs"
  by (cases xs) (simp_all add: remove_nth_def)

text \<open>The gap is closed and the freed slot cleared, on any ring.\<close>

lemma ring_remove:
  assumes "length buf = c" "n \<le> c" "i < n" "h < c"
  shows "ring_view ((ring_shift buf h c i n)[(h + n - 1) mod c := z]) h (n - 1) c =
    remove_nth i (ring_view buf h n c)"
proof -
  have "h + n - 1 = h + (n - 1)" using assms by simp
  then show ?thesis
    using assms ring_view_clear_tail [of "n - 1" c "ring_shift buf h c i n" h z] ring_view_shift [of buf c n i h]
    by (simp add: remove_nth_def)
qed

lemma dr_push: "dr_inv r \<Longrightarrow> dr_count r < dr_cap r \<Longrightarrow>
    dr_inv (dr_PushBack x r) \<and> dr_view (dr_PushBack x r) = dr_view r @ [x] \<and> dr_cap (dr_PushBack x r) = dr_cap r"
  using ring_view_push [of "dr_buf r" "dr_cap r" "dr_count r" "dr_head r" x]
  by (simp add: dr_inv_def dr_view_def dr_PushBack_def Let_def)

lemma dr_drop: "dr_inv r \<Longrightarrow>
    dr_inv (dr_DropFront z r) \<and> dr_view (dr_DropFront z r) = tl (dr_view r) \<and> dr_cap (dr_DropFront z r) = dr_cap r"
  using ring_view_drop [of "dr_count r" "dr_cap r" "dr_head r" "dr_buf r" z]
  by (auto simp: dr_inv_def dr_view_def dr_DropFront_def ring_view_def)

lemma dr_pop: "dr_inv r \<Longrightarrow>
    dr_PopFront z r = (case dr_view r of [] \<Rightarrow> None | x # _ \<Rightarrow> Some (x, dr_DropFront z r))"
  by (auto simp: dr_inv_def dr_view_def dr_PopFront_def dr_DropFront_def ring_view_def upt_conv_Cons)

lemma dr_remove: "dr_inv r \<Longrightarrow> i < dr_count r \<Longrightarrow>
    dr_inv (dr_RemoveAt z i r) \<and> dr_view (dr_RemoveAt z i r) = remove_nth i (dr_view r) \<and>
    dr_cap (dr_RemoveAt z i r) = dr_cap r \<and> dr_count (dr_RemoveAt z i r) = dr_count r - 1"
proof (cases "i = 0")
  case True
  then show "dr_inv r \<Longrightarrow> i < dr_count r \<Longrightarrow> ?thesis"
    using dr_drop [of r z] by (simp add: dr_RemoveAt_def remove_nth_0) (simp add: dr_DropFront_def)
next
  case False
  then show "dr_inv r \<Longrightarrow> i < dr_count r \<Longrightarrow> ?thesis"
    using ring_remove [of "dr_buf r" "dr_cap r" "dr_count r" i "dr_head r" z]
    by (auto simp: dr_RemoveAt_def dr_inv_def dr_view_def Let_def)
qed

lemma dr_at: "i < dr_count r \<Longrightarrow> dr_At i r = dr_view r ! i"
  by (simp add: dr_At_def dr_view_def)

lemma dr_new: "dr_inv (newDeliveryRing z n) \<and> dr_view (newDeliveryRing z n) = []"
  by (simp add: newDeliveryRing_def dr_inv_def dr_view_def ring_view_def Let_def)

interpretation dring: bounded_fifo dr_PushBack "dr_PopFront z" dr_view dr_cap dr_inv
  by unfold_locales (auto simp: dr_push dr_pop dr_drop split: list.splits)

lemma wq_push: "wq_inv q \<Longrightarrow> wq_count q < wq_capacity q \<Longrightarrow>
    wq_inv (wq_pushTail m q) \<and> wq_view (wq_pushTail m q) = wq_view q @ [m]"
  using ring_view_push [of "wq_buf q" "wq_capacity q" "wq_count q" "wq_head q" m]
  by (simp add: wq_inv_def wq_view_def wq_pushTail_def)

lemma wq_drop: "wq_inv q \<Longrightarrow> 0 < wq_count q \<Longrightarrow>
    wq_inv (wq_dropHead q) \<and> wq_view (wq_dropHead q) = tl (wq_view q) \<and> wq_count (wq_dropHead q) = wq_count q - 1
    \<and> wq_capacity (wq_dropHead q) = wq_capacity q"
  using ring_view_drop [of "wq_count q" "wq_capacity q" "wq_head q" "wq_buf q" None]
  by (auto simp: wq_inv_def wq_view_def wq_dropHead_def)

lemma wq_remove: "wq_inv q \<Longrightarrow> i < wq_count q \<Longrightarrow>
    wq_inv (wq_removeAt i q) \<and> wq_view (wq_removeAt i q) = remove_nth i (wq_view q) \<and>
    wq_count (wq_removeAt i q) = wq_count q - 1 \<and> wq_capacity (wq_removeAt i q) = wq_capacity q"
proof (cases "i = 0")
  case True
  then show "wq_inv q \<Longrightarrow> i < wq_count q \<Longrightarrow> ?thesis"
    using wq_drop [of q] by (simp add: wq_removeAt_def remove_nth_0)
next
  case False
  then show "wq_inv q \<Longrightarrow> i < wq_count q \<Longrightarrow> ?thesis"
    using ring_remove [of "wq_buf q" "wq_capacity q" "wq_count q" i "wq_head q" None]
    by (auto simp: wq_removeAt_def wq_inv_def wq_view_def Let_def)
qed

lemma find_loop_index:
  "find_loop P q i n =
     (case first_index P (map (\<lambda>j. wq_buf q ! ((wq_head q + j) mod wq_capacity q)) [i..<i + n]) of
        None \<Rightarrow> - 1 | Some k \<Rightarrow> int (i + k))"
proof (induction n arbitrary: i)
  case (Suc n)
  have "[i..<i + Suc n] = i # [Suc i..<Suc i + n]" by (simp add: upt_conv_Cons)
  with Suc [of "Suc i"] show ?case by (auto split: option.splits)
qed simp

lemma find_first:
  "find_loop P q 0 (wq_count q) = (case first_index P (wq_view q) of None \<Rightarrow> - 1 | Some k \<Rightarrow> int k)"
  unfolding find_loop_index wq_view_def ring_view_def by (simp split: option.split)

lemma first_index_Some: "first_index P xs = Some i \<Longrightarrow> i < length xs \<and> P (xs ! i)"
  by (induction xs arbitrary: i) (auto split: if_splits)

lemma first_index_None: "first_index P xs = None \<longleftrightarrow> (\<forall>x \<in> set xs. \<not> P x)"
  by (induction xs) auto

lemma filter_remove_nth: "i < length xs \<Longrightarrow> \<not> Q (xs ! i) \<Longrightarrow> filter Q (remove_nth i xs) = filter Q xs"
  unfolding remove_nth_def by (subst (3) id_take_nth_drop [of i xs]) simp_all

lemma removeAt_push:
  assumes "wq_inv q" "i < wq_count q"
  shows "wq_inv (wq_pushTail m (wq_removeAt i q))"
    and "wq_view (wq_pushTail m (wq_removeAt i q)) = remove_nth i (wq_view q) @ [m]"
proof -
  have "wq_count (wq_removeAt i q) < wq_capacity (wq_removeAt i q)"
    using wq_remove [OF assms] assms by (auto simp: wq_inv_def)
  with wq_remove [OF assms] show "wq_inv (wq_pushTail m (wq_removeAt i q))"
    "wq_view (wq_pushTail m (wq_removeAt i q)) = remove_nth i (wq_view q) @ [m]"
    using wq_push [of "wq_removeAt i q" m] by simp_all
qed

lemma dropHead_removeAt: "wq_dropHead q = wq_removeAt 0 q"
  by (simp add: wq_removeAt_def)

lemma Enqueue_full:
  assumes "\<not> wq_closed q" "\<not> wq_count q < wq_capacity q"
  shows "wq_Enqueue m q =
    (case drop_index (wq_policy q) m (wq_view q) of
       None \<Rightarrow> (q, 1, True) | Some i \<Rightarrow> (wq_pushTail m (wq_removeAt i q), 1, True))"
  using assms by (simp add: wq_Enqueue_def drop_index_def Let_def findFirstDepth_def findFirstLiquidation_def
      find_first dropHead_removeAt split: BackpressurePolicy.split option.split)

lemma drop_index_bound:
  "drop_index policy m xs = Some i \<Longrightarrow> xs \<noteq> [] \<Longrightarrow> i < length xs"
  by (auto simp: drop_index_def split: if_splits option.splits dest: first_index_Some)

lemma Enqueue_room:
  assumes "wq_inv q" "\<not> wq_closed q" "wq_count q < wq_capacity q"
  shows "wq_Enqueue m q = (wq_pushTail m q, 0, False)"
  using assms by (simp add: wq_Enqueue_def wq_pushTail_def)

lemma Pop_view: "wq_inv q \<Longrightarrow>
    wq_Pop q = (case wq_view q of
       [] \<Rightarrow> (q, if wq_closed q then PopClosed else PopWait)
     | m # _ \<Rightarrow> (wq_dropHead q, PopMsg m))"
  by (auto simp: wq_inv_def wq_view_def wq_Pop_def wq_dropHead_def ring_view_def upt_conv_Cons)

text \<open>The queue as its consumer sees it: an open queue and a pop that does not wait.\<close>

interpretation wqueue: bounded_fifo "\<lambda>m q. fst (wq_Enqueue m q)"
  "\<lambda>q. case wq_Pop q of (q', PopMsg m) \<Rightarrow> Some (m, q') | _ \<Rightarrow> None"
  wq_view wq_capacity "\<lambda>q. wq_inv q \<and> \<not> wq_closed q"
proof unfold_locales
  fix q m assume "wq_inv q \<and> \<not> wq_closed q" "length (wq_view q) < wq_capacity q"
  then show "wq_inv (fst (wq_Enqueue m q)) \<and> \<not> wq_closed (fst (wq_Enqueue m q))"
    "wq_view (fst (wq_Enqueue m q)) = wq_view q @ [m]"
    "wq_capacity (fst (wq_Enqueue m q)) = wq_capacity q"
    using wq_push [of q m] by (simp_all add: Enqueue_room) (simp_all add: wq_pushTail_def)
next
  fix q assume q: "wq_inv q \<and> \<not> wq_closed q"
  then show "(case wq_Pop q of (q', PopMsg m) \<Rightarrow> Some (m, q') | _ \<Rightarrow> None) = None \<longleftrightarrow> wq_view q = []"
    by (simp add: Pop_view split: list.split)
  fix x q' assume "(case wq_Pop q of (q', PopMsg m) \<Rightarrow> Some (m, q') | _ \<Rightarrow> None) = Some (x, q')"
  then have "wq_view q \<noteq> []" "q' = wq_dropHead q" "x = hd (wq_view q)"
    using q by (auto simp: Pop_view split: list.splits)
  moreover from this have "0 < wq_count q" using length_views(1) [of q] by (metis length_greater_0_conv)
  ultimately show "wq_view q = x # wq_view q'" "wq_inv q' \<and> \<not> wq_closed q'"
    using wq_drop [of q] q by (simp_all add: wq_dropHead_def [of q])
qed

lemma Enqueue_refines:
  assumes "wq_inv q"
  shows "wq_inv (fst (wq_Enqueue m q)) \<and>
    wq_view (fst (wq_Enqueue m q)) =
      enqueue_spec (wq_capacity q) (wq_closed q) (wq_policy q) m (wq_view q)"
proof -
  consider "wq_closed q" | "\<not> wq_closed q" "wq_count q < wq_capacity q"
    | "\<not> wq_closed q" "\<not> wq_count q < wq_capacity q" by blast
  then show ?thesis
  proof cases
    case 1
    with assms show ?thesis by (simp add: wq_Enqueue_def enqueue_spec_def)
  next
    case 2
    with assms wq_push [of q m] show ?thesis by (simp add: Enqueue_room enqueue_spec_def)
  next
    case 3
    then have "wq_count q \<noteq> 0" using assms by (auto simp: wq_inv_def)
    then have "wq_view q \<noteq> []" using length_views(1) [of q] by (metis list.size(3))
    then have "drop_index (wq_policy q) m (wq_view q) = Some i \<Longrightarrow> i < wq_count q" for i
      using drop_index_bound [of "wq_policy q" m "wq_view q" i] by simp
    with 3 assms removeAt_push [OF assms] show ?thesis
      by (auto simp: Enqueue_full enqueue_spec_def split: option.split)
  qed
qed

lemma drop_index_depth:
  assumes "drop_index BackpressureDropDepthKeepOps m xs = Some i" "\<exists>x \<in> set xs. isDepthWSMessage x"
  shows "isDepthWSMessage (xs ! i) \<and> i < length xs \<and> \<not> isDepthWSMessage m"
  using assms first_index_None [of isDepthWSMessage xs]
  by (auto simp: drop_index_def split: if_splits option.splits dest: first_index_Some)

section \<open>Properties\<close>

text \<open>
  Property C10. The outbound ring refines a bounded list: its operations keep the representation
  invariant and are append, tail, indexing and removal on the list of its elements, which never has more
  than the capacity; what is pushed comes out first in, first out.
\<close>

theorem delivery_ring_refines_list:
  assumes "dr_inv r"
  shows "length (dr_view r) \<le> dr_cap r
    \<and> (\<not> dr_IsFull r \<longrightarrow> dr_inv (dr_PushBack x r) \<and> dr_view (dr_PushBack x r) = dr_view r @ [x])
    \<and> dr_PopFront z r = (case dr_view r of [] \<Rightarrow> None | y # _ \<Rightarrow> Some (y, dr_DropFront z r))
    \<and> dr_inv (dr_DropFront z r) \<and> dr_view (dr_DropFront z r) = tl (dr_view r)
    \<and> (i < dr_Len r \<longrightarrow> dr_At i r = dr_view r ! i
         \<and> dr_inv (dr_RemoveAt z i r) \<and> dr_view (dr_RemoveAt z i r) = remove_nth i (dr_view r))
    \<and> (length (dr_view r) + length xs \<le> dr_cap r \<longrightarrow>
         drain (dr_PopFront z) (length (dr_view r) + length xs) (foldl (\<lambda>r x. dr_PushBack x r) r xs) =
           dr_view r @ xs)"
  using assms dr_push [of r x] dr_pop [of r z] dr_drop [of r z] dr_at [of i r] dr_remove [of r i z]
    dring.fifo [of r xs z]
  by (auto simp: dr_inv_def dr_IsFull_def dr_Len_def)

theorem delivery_ring_refines_list_witness:
  "drain (dr_PopFront (0 :: int)) 3 (foldl (\<lambda>r x. dr_PushBack x r) (newDeliveryRing 0 4) [7, 8, 9]) = [7, 8, 9]"
proof -
  let ?r = "newDeliveryRing (0 :: int) 4"
  have "dr_inv ?r" "dr_view ?r = []" "dr_cap ?r = 4"
    using dr_new [of "0 :: int" 4] by (simp_all add: newDeliveryRing_def)
  then show ?thesis
    using delivery_ring_refines_list [of ?r 0 0 0 "[7, 8, 9]"] by (simp add: numeral_3_eq_3)
qed

text \<open>
  Property C9. The websocket queue refines its list specification: on every queue, open or closed, with
  room or full, under every policy, \<open>Enqueue\<close> keeps the invariant and the elements afterwards are those
  the specification gives, and \<open>Pop\<close> takes the first one.
\<close>

theorem ws_queue_refines_list:
  assumes "wq_inv q"
  shows "wq_inv (fst (wq_Enqueue m q))
    \<and> wq_view (fst (wq_Enqueue m q)) = enqueue_spec (wq_capacity q) (wq_closed q) (wq_policy q) m (wq_view q)
    \<and> length (wq_view (fst (wq_Enqueue m q))) \<le> wq_capacity q
    \<and> wq_Pop q = (case wq_view q of
          [] \<Rightarrow> (q, if wq_closed q then PopClosed else PopWait)
        | x # _ \<Rightarrow> (wq_dropHead q, PopMsg x))
    \<and> (wq_view q \<noteq> [] \<longrightarrow> wq_inv (wq_dropHead q) \<and> wq_view (wq_dropHead q) = tl (wq_view q))"
proof -
  have "wq_view q \<noteq> [] \<Longrightarrow> 0 < wq_count q" using length_views(1) [of q] by (metis length_greater_0_conv)
  moreover have "wq_capacity (fst (wq_Enqueue m q)) = wq_capacity q"
    by (simp add: wq_Enqueue_def wq_pushTail_def wq_removeAt_def wq_dropHead_def Let_def
        split: BackpressurePolicy.split)
  moreover have "wq_count (fst (wq_Enqueue m q)) \<le> wq_capacity (fst (wq_Enqueue m q))"
    using Enqueue_refines [OF assms, of m] by (simp only: wq_inv_def)
  ultimately have "length (wq_view (fst (wq_Enqueue m q))) \<le> wq_capacity q"
    by (simp only: length_views)
  moreover note \<open>wq_view q \<noteq> [] \<Longrightarrow> 0 < wq_count q\<close>
  ultimately show ?thesis
    using assms Enqueue_refines [OF assms, of m] wq_drop [of q] by (simp add: Pop_view)
qed

theorem ws_queue_refines_list_witness:
  "wq_view (fst (wq_Enqueue None (newWSQueue 2 BackpressureDropOldest))) = [None]"
proof -
  have "wq_inv (newWSQueue 2 BackpressureDropOldest)" by (simp add: newWSQueue_def wq_inv_def)
  from ws_queue_refines_list [OF this, of None] show ?thesis
    by (simp add: enqueue_spec_def newWSQueue_def wq_view_def ring_view_def)
qed

text \<open>
  Property C30. Under the policy that drops depth updates and keeps the rest, an open queue never loses a
  message that is not a depth update while it holds a depth update it can give up: the other messages
  come out complete and in order.
\<close>

theorem ws_queue_keeps_ops:
  assumes "wq_inv q" and "\<not> wq_closed q" and "wq_policy q = BackpressureDropDepthKeepOps"
    and "\<exists>x \<in> set (m # wq_view q). isDepthWSMessage x"
  shows "filter (\<lambda>x. \<not> isDepthWSMessage x) (wq_view (fst (wq_Enqueue m q))) =
    filter (\<lambda>x. \<not> isDepthWSMessage x) (wq_view q @ [m])"
proof (cases "drop_index BackpressureDropDepthKeepOps m (wq_view q)")
  case None
  then have "isDepthWSMessage m" by (auto simp: drop_index_def split: if_splits option.splits)
  with None assms show ?thesis by (simp add: Enqueue_refines enqueue_spec_def)
next
  case (Some i)
  then have "\<not> isDepthWSMessage m" by (auto simp: drop_index_def split: if_splits)
  then have "isDepthWSMessage (wq_view q ! i) \<and> i < length (wq_view q)"
    using drop_index_depth [OF Some] assms(4) by simp
  then have "filter (\<lambda>x. \<not> isDepthWSMessage x) (remove_nth i (wq_view q)) =
      filter (\<lambda>x. \<not> isDepthWSMessage x) (wq_view q)"
    by (simp add: filter_remove_nth)
  with Some assms show ?thesis by (simp add: Enqueue_refines enqueue_spec_def)
qed

theorem ws_queue_keeps_ops_witness:
  "filter (\<lambda>x. \<not> isDepthWSMessage x)
     (wq_view (fst (wq_Enqueue (Some \<lparr>wm_Data = ''trade''\<rparr>)
        (fst (wq_Enqueue (Some \<lparr>wm_Data = ''\"depthUpdate\"''\<rparr>) (newWSQueue 1 BackpressureDropDepthKeepOps))))))
   = [Some \<lparr>wm_Data = ''trade''\<rparr>]"
proof -
  let ?d = "Some \<lparr>wm_Data = ''\"depthUpdate\"''\<rparr>" and ?t = "Some \<lparr>wm_Data = ''trade''\<rparr>"
  let ?q = "newWSQueue 1 BackpressureDropDepthKeepOps"
  have d: "isDepthWSMessage ?d" and t: "\<not> isDepthWSMessage ?t" by code_simp+
  have q: "wq_inv ?q" "\<not> wq_closed ?q" "wq_capacity ?q = 1" "wq_count ?q = 0" "wq_view ?q = []"
    "wq_policy ?q = BackpressureDropDepthKeepOps"
    by (simp_all add: newWSQueue_def wq_inv_def wq_view_def ring_view_def)
  have "wq_inv (fst (wq_Enqueue ?d ?q))" "\<not> wq_closed (fst (wq_Enqueue ?d ?q))"
    "wq_policy (fst (wq_Enqueue ?d ?q)) = BackpressureDropDepthKeepOps"
    "wq_view (fst (wq_Enqueue ?d ?q)) = [?d]"
    using q wq_push [of ?q ?d] by (simp_all add: Enqueue_room) (simp_all add: wq_pushTail_def)
  with d t ws_queue_keeps_ops [of "fst (wq_Enqueue ?d ?q)" ?t] show ?thesis by simp
qed

end
