(* ===== verification/Session_Actor.thy ===== *)
theory Session_Actor
  imports Snapshot_Cache Router Ring_Queues "HOL-Library.Monad_Syntax"
begin

text \<open>
  The delivery session: one actor for each websocket client (\<open>internal/actors/delivery/runtime\<close>,
  \<open>session.go\<close>, \<open>session_commands.go\<close>, \<open>session_delivery.go\<close>, \<open>session_drop_policy.go\<close>,
  \<open>backpressure_strategy.go\<close>, \<open>session_metrics_tick.go\<close>, \<open>session_protocol.go\<close>). It answers the
  commands of its client, queues the events that the router sends to it and writes them to the
  connection in batches.

  The state is the actor's struct without the logger and the metrics, plus four fields that record what
  the actor did to the outside: the frames that the connection took, the number of writes tried, whether
  the connection was closed, and the messages sent. A nil Go map is \<open>None\<close>: reading it gives the zero
  value, writing it is a panic. Every operation that can write a map therefore returns an option, with
  \<open>None\<close> for a panic. One message reads the clock once.

  What the actor calls outside of the modelled code is the record \<open>ports\<close>: the connection, the JSON and
  protobuf codecs, the compressor, and the two stores of the session's configuration.
\<close>

section \<open>State\<close>

record DeliveryEvent =
  de_Subject :: Subject
  de_Env :: Envelope

record sessionSnapshotEntry =
  se_Seq :: int
  se_TsServer :: int
  se_Venue :: string
  se_Symbol :: string
  se_Channel :: string
  se_Payload :: string

record backpressureStrategy =
  bp_elevatedRatio :: f64
  bp_highRatio :: f64
  bp_criticalRatio :: f64
  bp_sampleTopN :: int
  bp_sampleMaxUnique :: int
  bp_sampleFlushEvery :: int

type_synonym backpressureDropSampleKey = "string \<times> string \<times> string"

datatype session_out = ToRouter router_msg | ToSelfFlush | ToSelfDisconnected

record SessionActor =
  sa_cfg :: SessionConfig
  sa_self :: string
  sa_session :: Session
  sa_limits :: EffectiveLimits
  sa_features :: NegotiatedFeatures
  sa_attached :: bool
  sa_started :: bool
  sa_closed :: bool
  sa_outbound :: "DeliveryEvent deliveryRing"
  sa_flushing :: bool
  sa_policy :: string
  sa_priorities :: "(string \<times> int) list"
  sa_rateLimiter :: "RateLimiter option"
  sa_dropCount :: int
  sa_helloSeen :: bool
  sa_lastLagMs :: int
  sa_messagesOut :: int
  sa_lastSnapshot :: "(string \<times> sessionSnapshotEntry) list option"
  sa_snapshotSeq :: "(string \<times> int) list option"
  sa_lastDeliveredSeq :: "(string \<times> int) list option"
  sa_deferredSnapshotSubjects :: "(string \<times> unit) list option"
  sa_resyncCount :: int
  sa_queueHighWatermark :: nat
  sa_bpStrategy :: backpressureStrategy
  sa_bpDropSamples :: "(backpressureDropSampleKey \<times> int) list"
  sa_bpDropSampleDrops :: int
  sa_bpDropSampleWindow :: int
  sa_wireCache :: "wsSnapshotFrame SnapshotWireCache"
  sa_connClosed :: bool
  sa_writes :: nat
  sa_wire :: "ws_frame list"
  sa_out :: "session_out list"

record ports =
  pt_accepts :: "bool \<Rightarrow> nat \<Rightarrow> bool"
  pt_size :: "ws_frame \<Rightarrow> string + int"
  pt_deflate :: "ws_frame \<Rightarrow> int"
  pt_valid :: "string \<Rightarrow> bool"
  pt_transcode :: "Envelope \<Rightarrow> string result"
  pt_protoRollout :: "string \<Rightarrow> bool"
  pt_marshalProto :: "Envelope \<Rightarrow> string result"
  pt_signal :: "string \<Rightarrow> string + signal_in"
  pt_hot :: "(Subject \<Rightarrow> string option) option"
  pt_snapshotMeta :: "string \<Rightarrow> (int \<times> int) option"
  pt_rangeStore :: "range_store option"
  pt_params :: "string \<Rightarrow> string + getRangeParams"
  pt_command :: "string \<Rightarrow> clientCommand \<times> string option"
  pt_terminal :: "64 word \<times> 64 word"

text \<open>Writing, deleting and reading an entry of a map that may be nil.\<close>

definition map_set :: "'k \<Rightarrow> 'v \<Rightarrow> ('k \<times> 'v) list option \<Rightarrow> ('k \<times> 'v) list option option" where
  "map_set k v m = (case m of None \<Rightarrow> None | Some xs \<Rightarrow> Some (Some (AList.update k v xs)))"

definition map_delete :: "'k \<Rightarrow> ('k \<times> 'v) list option \<Rightarrow> ('k \<times> 'v) list option" where
  "map_delete k m = map_option (AList.delete k) m"

definition map_read :: "('k \<times> 'v) list option \<Rightarrow> 'k \<Rightarrow> 'v option" where
  "map_read m k = (case m of None \<Rightarrow> None | Some xs \<Rightarrow> map_of xs k)"

definition int_read :: "('k \<times> int) list option \<Rightarrow> 'k \<Rightarrow> int" where
  "int_read m k = (case map_read m k of None \<Rightarrow> 0 | Some n \<Rightarrow> n)"

definition zero_event :: DeliveryEvent where
  "zero_event =
     \<lparr>de_Subject = \<lparr>sub_StreamType = '''', sub_Kind = '''', sub_Venue = '''', sub_Symbol = '''', sub_Timeframe = ''''\<rparr>,
      de_Env = \<lparr>env_Type = '''', env_Version = 0, env_Venue = '''', env_Instrument = '''', env_TsExchange = 0,
        env_TsIngest = 0, env_Seq = 0, env_IdempotencyKey = '''', env_ContentType = '''', env_Meta = [],
        env_Payload = '''', env_topicKey = ''''\<rparr>\<rparr>"

definition defaultBackpressureStrategy :: backpressureStrategy where
  "defaultBackpressureStrategy =
     \<lparr>bp_elevatedRatio = f64_of_rat (1 / 2), bp_highRatio = f64_of_rat (3 / 4), bp_criticalRatio = f64_of_rat (95 / 100),
      bp_sampleTopN = 5, bp_sampleMaxUnique = 64, bp_sampleFlushEvery = 64\<rparr>"

text \<open>
  The first call of \<open>ensureDefaults\<close>, which builds the state from the configuration, and the later ones,
  which only find the four maps that \<open>closeSession\<close> sets to nil.
\<close>

definition NewSessionActor ::
  "SessionConfig \<Rightarrow> string \<Rightarrow> string \<Rightarrow> int \<Rightarrow> wsSnapshotFrame SnapshotWireCache \<Rightarrow> SessionActor" where
  "NewSessionActor cfg newID pid now wireCache =
     (let limits = NewEffectiveLimits cfg;
          cfg = (if TrimSpace (sc_ServerInstanceID cfg) = '''' then cfg\<lparr>sc_ServerInstanceID := ''unknown''\<rparr> else cfg);
          burst = (if rl_BurstCapacity (el_RateLimit limits) \<le> 0 then 200 else rl_BurstCapacity (el_RateLimit limits));
          rate = (if rl_MaxPerSecond (el_RateLimit limits) \<le> 0 then 100 else rl_MaxPerSecond (el_RateLimit limits))
      in
      \<lparr>sa_cfg = cfg, sa_self = pid, sa_session = NewSession newID, sa_limits = limits, sa_features = 0,
       sa_attached = False, sa_started = False, sa_closed = False,
       sa_outbound = newDeliveryRing zero_event (el_OutboundQueueSize limits), sa_flushing = False,
       sa_policy = NormalizeBackpressurePolicy (sc_BackpressurePolicy cfg),
       sa_priorities =
         foldl (\<lambda>m (key, pri). AList.update (ToLower (TrimSpace key)) pri m)
           DefaultBackpressurePriorities (sc_BackpressurePriorities cfg),
       sa_rateLimiter =
         (if rl_Enabled (el_RateLimit limits) then Some (NewRateLimiter burst rate now) else None),
       sa_dropCount = 0, sa_helloSeen = False, sa_lastLagMs = 0, sa_messagesOut = 0,
       sa_lastSnapshot = Some [], sa_snapshotSeq = Some [], sa_lastDeliveredSeq = Some [],
       sa_deferredSnapshotSubjects = Some [], sa_resyncCount = 0, sa_queueHighWatermark = 0,
       sa_bpStrategy = defaultBackpressureStrategy, sa_bpDropSamples = [], sa_bpDropSampleDrops = 0,
       sa_bpDropSampleWindow = 0, sa_wireCache = wireCache, sa_connClosed = False, sa_writes = 0,
       sa_wire = [], sa_out = []\<rparr>)"

definition or_empty :: "'a list option \<Rightarrow> 'a list option" where
  "or_empty m = (case m of None \<Rightarrow> Some [] | Some xs \<Rightarrow> Some xs)"

definition session_ensureDefaults :: "SessionActor \<Rightarrow> SessionActor" where
  "session_ensureDefaults s =
     s\<lparr>sa_lastSnapshot := or_empty (sa_lastSnapshot s), sa_snapshotSeq := or_empty (sa_snapshotSeq s),
       sa_lastDeliveredSeq := or_empty (sa_lastDeliveredSeq s),
       sa_deferredSnapshotSubjects := or_empty (sa_deferredSnapshotSubjects s)\<rparr>"

section \<open>Backpressure\<close>

definition normalizeDropReason :: "string \<Rightarrow> string" where
  "normalizeDropReason reason =
     (let r = ToLower (TrimSpace reason) in
      if r \<in> set [''queue_full'', ''drop_oldest'', ''priority_drop'', ''priority_drop_self'', ''frame_too_large'',
                   ''slow_client_disconnect''] then r else ''queue_full'')"

definition actionHintForDrop :: "string \<Rightarrow> string" where
  "actionHintForDrop reason =
     (if normalizeDropReason reason \<in> set [''queue_full'', ''priority_drop_self'', ''slow_client_disconnect'']
      then ''ACTION_HINT_RECONNECT'' else ''ACTION_HINT_NONE'')"

definition queueLevel :: "backpressureStrategy \<Rightarrow> int \<Rightarrow> int \<Rightarrow> int \<times> string" where
  "queueLevel st queueLen queueCap =
     (if queueCap \<le> 0 then (0, ''none'')
      else
        let ratio = f64_div (f64_of_int (max queueLen 0)) (f64_of_int queueCap) in
        if f64_ge ratio (bp_criticalRatio st) then (3, ''reconnect'')
        else if f64_ge ratio (bp_highRatio st) then (2, ''reduce_subscriptions'')
        else if f64_ge ratio (bp_elevatedRatio st) then (1, ''none'')
        else (0, ''none''))"

definition computeBackpressureLevel :: "SessionActor \<Rightarrow> int \<times> string" where
  "computeBackpressureLevel s =
     (let st = sa_bpStrategy s;
          st = (if f64_le (bp_criticalRatio st) (f64_of_int 0) then defaultBackpressureStrategy else st)
      in queueLevel st (int (dr_Len (sa_outbound s))) (el_OutboundQueueSize (sa_limits s)))"

text \<open>The sampled drops only go to the log; what remains is the counting.\<close>

definition flushBackpressureDropSamples :: "bool \<Rightarrow> SessionActor \<Rightarrow> SessionActor" where
  "flushBackpressureDropSamples force s =
     (if length (sa_bpDropSamples s) = 0 then
        let s = s\<lparr>sa_bpDropSampleWindow := 0\<rparr> in if force then s\<lparr>sa_bpDropSampleDrops := 0\<rparr> else s
      else if \<not> force \<and> sa_bpDropSampleWindow s < bp_sampleFlushEvery (sa_bpStrategy s) then s
      else s\<lparr>sa_bpDropSamples := [], sa_bpDropSampleDrops := 0, sa_bpDropSampleWindow := 0\<rparr>)"

definition recordBackpressureDropSample :: "string \<Rightarrow> string \<Rightarrow> string \<Rightarrow> SessionActor \<Rightarrow> SessionActor" where
  "recordBackpressureDropSample reason channel priority s =
     (let reason = normalizeDropReason reason;
          channel = (if ToLower (TrimSpace channel) = '''' then ''unknown'' else ToLower (TrimSpace channel));
          priority = (if ToLower (TrimSpace priority) = '''' then ''standard'' else ToLower (TrimSpace priority));
          key = (reason, channel, priority);
          s = (case map_of (sa_bpDropSamples s) key of
                 Some n \<Rightarrow> s\<lparr>sa_bpDropSamples := AList.update key (n + 1) (sa_bpDropSamples s)\<rparr>
               | None \<Rightarrow>
                   if int (length (sa_bpDropSamples s)) < bp_sampleMaxUnique (sa_bpStrategy s)
                   then s\<lparr>sa_bpDropSamples := AList.update key 1 (sa_bpDropSamples s)\<rparr>
                   else s\<lparr>sa_bpDropSampleDrops := sa_bpDropSampleDrops s + 1\<rparr>);
          s = s\<lparr>sa_bpDropSampleWindow := sa_bpDropSampleWindow s + 1\<rparr>
      in if sa_bpDropSampleWindow s \<ge> bp_sampleFlushEvery (sa_bpStrategy s)
         then flushBackpressureDropSamples False s else s)"

section \<open>The connection\<close>

definition unregister_on_close :: "SessionActor \<Rightarrow> SessionActor" where
  "unregister_on_close s =
     (if sa_started s \<and> sc_hasRouter (sa_cfg s)
      then s\<lparr>sa_out := sa_out s @
             map (\<lambda>sub. ToRouter (UnsubscribeSession (ses_id (sa_session s)) (sb_Subject sub))) (ses_Subscriptions (sa_session s)) @
             [ToRouter (UnregisterSession (ses_id (sa_session s)))]\<rparr>
      else s)"

definition closeSession :: "SessionActor \<Rightarrow> SessionActor" where
  "closeSession s =
     (if sa_closed s then s
      else
        let s = unregister_on_close (flushBackpressureDropSamples True (s\<lparr>sa_closed := True\<rparr>));
            s = (if sc_hasConn (sa_cfg s) then s\<lparr>sa_connClosed := True\<rparr> else s)
        in s\<lparr>sa_lastSnapshot := None, sa_snapshotSeq := None, sa_lastDeliveredSeq := None,
             sa_deferredSnapshotSubjects := None\<rparr>)"

text \<open>One write to the connection.\<close>

definition conn_write :: "ports \<Rightarrow> ws_frame \<Rightarrow> SessionActor \<Rightarrow> SessionActor \<times> string option" where
  "conn_write P frame s =
     (let s' = s\<lparr>sa_writes := sa_writes s + 1\<rparr> in
      if pt_accepts P (sa_connClosed s) (sa_writes s)
      then (s'\<lparr>sa_wire := sa_wire s @ [frame]\<rparr>, None) else (s', Some ''write failed''))"

definition conn_WriteJSON :: "ports \<Rightarrow> ws_frame \<Rightarrow> SessionActor \<Rightarrow> SessionActor \<times> string option" where
  "conn_WriteJSON P v s = (case pt_size P v of Inl err \<Rightarrow> (s, Some err) | Inr _ \<Rightarrow> conn_write P v s)"

definition planWireCompression :: "ports \<Rightarrow> ws_frame \<Rightarrow> int \<Rightarrow> SessionActor \<Rightarrow> bool \<times> int" where
  "planWireCompression P payload wireSize s =
     (if wireSize \<le> 0 then (False, wireSize)
      else if \<not> HasCompression (sa_features s) \<or> wireSize < el_CompressThresholdBytes (sa_limits s)
      then (False, wireSize)
      else if \<not> (sc_hasConn (sa_cfg s) \<and> sc_connCompresses (sa_cfg s)) then (False, wireSize)
      else
        let compressed = pt_deflate P payload in
        if compressed \<le> 0 \<or> compressed \<ge> wireSize then (False, wireSize) else (True, compressed))"

definition writeRawMessage :: "ports \<Rightarrow> ws_frame \<Rightarrow> SessionActor \<Rightarrow> SessionActor \<times> string option" where
  "writeRawMessage P payload s = (if \<not> sc_hasConn (sa_cfg s) then (s, None) else conn_write P payload s)"

definition writeJSONDirect :: "ports \<Rightarrow> ws_frame \<Rightarrow> SessionActor \<Rightarrow> SessionActor \<times> string option" where
  "writeJSONDirect P v s =
     (if \<not> sc_hasConn (sa_cfg s) then (s, None)
      else if HasCompression (sa_features s) then
        (case pt_size P v of
           Inl err \<Rightarrow> (s, Some err)
         | Inr rawLen \<Rightarrow>
             (case planWireCompression P v rawLen s of
                (applyCompression, wireSize) \<Rightarrow>
                  if applyCompression then writeRawMessage P v s else conn_WriteJSON P v s))
      else conn_WriteJSON P v s)"

definition writeJSONRawWithLimits :: "ports \<Rightarrow> ws_frame \<Rightarrow> int \<Rightarrow> SessionActor \<Rightarrow> SessionActor \<times> string option" where
  "writeJSONRawWithLimits P raw rawLen s =
     (case planWireCompression P raw rawLen s of
        (applyCompression, wireSize) \<Rightarrow>
          if el_MaxFrameBytes (sa_limits s) > 0 \<and> wireSize > el_MaxFrameBytes (sa_limits s)
          then (s, Some ''frame exceeds max_frame_bytes (%d)'')
          else writeRawMessage P raw s)"

definition writeJSON :: "ports \<Rightarrow> ws_frame \<Rightarrow> SessionActor \<Rightarrow> SessionActor" where
  "writeJSON P v s =
     (case writeJSONDirect P v s of (s', None) \<Rightarrow> s' | (s', Some err) \<Rightarrow> closeSession s')"

definition frameFitsMaxBytes :: "ports \<Rightarrow> ws_frame \<Rightarrow> SessionActor \<Rightarrow> bool" where
  "frameFitsMaxBytes P v s =
     (if el_MaxFrameBytes (sa_limits s) \<le> 0 then True
      else case pt_size P v of
        Inl err \<Rightarrow> False
      | Inr rawLen \<Rightarrow> snd (planWireCompression P v rawLen s) \<le> el_MaxFrameBytes (sa_limits s))"

definition writeProblem :: "ports \<Rightarrow> string \<Rightarrow> string \<Rightarrow> problem \<Rightarrow> SessionActor \<Rightarrow> SessionActor" where
  "writeProblem P op requestID p s =
     (case wsErrorMappingFromProblem p of
        (errorCode, actionHint) \<Rightarrow>
          writeJSON P (ErrorFrame \<lparr>er_Op = op, er_RequestID = requestID, er_Code = pCode p,
            er_ErrorCode = errorCode, er_ActionHint = actionHint, er_Message = pMessage p\<rparr>) s)"

section \<open>The drop policy\<close>

definition eventPriority :: "string \<Rightarrow> SessionActor \<Rightarrow> int" where
  "eventPriority eventType s = (case map_of (sa_priorities s) eventType of None \<Rightarrow> 0 | Some n \<Rightarrow> n)"

definition isHighVolumeEventType :: "string \<Rightarrow> bool" where
  "isHighVolumeEventType eventType \<longleftrightarrow> ToLower (TrimSpace eventType) = ''marketdata.bookdelta''"

definition dropScore :: "string \<Rightarrow> SessionActor \<Rightarrow> int" where
  "dropScore eventType s =
     (let score = wrap64 (eventPriority eventType s * 10)
      in if isHighVolumeEventType eventType then wrap64 (score - 5) else score)"

definition dropPriorityLabel :: "DeliveryEvent option \<Rightarrow> SessionActor \<Rightarrow> string" where
  "dropPriorityLabel evt s =
     (case evt of
        None \<Rightarrow> ''control''
      | Some e \<Rightarrow>
          if isHighVolumeEventType (env_Type (de_Env e)) then ''high_volume''
          else if eventPriority (env_Type (de_Env e)) s \<ge> 80 then ''critical'' else ''standard'')"

definition onDrop :: "ports \<Rightarrow> string \<Rightarrow> DeliveryEvent option \<Rightarrow> SessionActor \<Rightarrow> SessionActor \<times> bool" where
  "onDrop P reason evt s =
     (let reason = normalizeDropReason reason;
          s = (if reason = ''queue_full'' \<or> reason = ''priority_drop_self'' then
                 writeProblem P ''delivery'' ''''
                   (withWSLimitProblemDetails (New Unavailable ''outbound queue limit reached'')
                      wsLimitTypeOutboundQueue (actionHintForDrop reason)) s
               else if reason = ''frame_too_large'' then
                 writeProblem P ''delivery'' ''''
                   (withWSLimitProblemDetails (Newf ValidationFailed ''event exceeds max_frame_bytes (%d)'')
                      wsLimitTypeMaxFrameBytes (actionHintForDrop reason)) s
               else s);
          priority = dropPriorityLabel evt s;
          channel = (case evt of
                       None \<Rightarrow> ''unknown''
                     | Some e \<Rightarrow> channelName (channelEnumFromStreamType (sub_StreamType (de_Subject e)))
                                   (sub_StreamType (de_Subject e)));
          s = recordBackpressureDropSample reason channel priority s;
          s = s\<lparr>sa_dropCount := sa_dropCount s + 1\<rparr>;
          threshold = sc_SlowClientDropThreshold (sa_cfg s) in
      if threshold \<le> 0 \<or> sa_dropCount s < threshold then (s, False)
      else
        let s = recordBackpressureDropSample ''slow_client_disconnect'' channel priority s;
            s = writeProblem P ''delivery'' ''''
                  (withWSLimitProblemDetails
                     (New Unavailable ''outbound queue limit reached; disconnecting slow client'')
                     wsLimitTypeOutboundQueue (actionHintForDrop ''slow_client_disconnect'')) s
        in (closeSession (flushBackpressureDropSamples True s), True))"

text \<open>The scan of \<open>priorityDrop\<close>: index \<open>i\<close>, \<open>n\<close> events left, the lowest score and its index so far.\<close>

fun lowest_loop :: "SessionActor \<Rightarrow> nat \<Rightarrow> nat \<Rightarrow> int \<Rightarrow> nat option \<Rightarrow> nat option" where
  "lowest_loop s i 0 lowestScore lowestIdx = lowestIdx"
| "lowest_loop s i (Suc n) lowestScore lowestIdx =
     (let score = dropScore (env_Type (de_Env (dr_At i (sa_outbound s)))) s in
      if score < lowestScore then lowest_loop s (Suc i) n score (Some i)
      else lowest_loop s (Suc i) n lowestScore lowestIdx)"

definition priorityDrop :: "DeliveryEvent \<Rightarrow> SessionActor \<Rightarrow> SessionActor \<times> bool" where
  "priorityDrop evt s =
     (if \<not> dr_IsFull (sa_outbound s) then (s\<lparr>sa_outbound := dr_PushBack evt (sa_outbound s)\<rparr>, True)
      else
        case lowest_loop s 0 (dr_Len (sa_outbound s)) (dropScore (env_Type (de_Env evt)) s) None of
          None \<Rightarrow> (s, False)
        | Some i \<Rightarrow>
            (s\<lparr>sa_outbound := dr_PushBack evt (dr_RemoveAt zero_event i (sa_outbound s))\<rparr>, True))"

definition request_flush :: "SessionActor \<Rightarrow> SessionActor" where
  "request_flush s =
     (if sa_flushing s then s else s\<lparr>sa_flushing := True, sa_out := sa_out s @ [ToSelfFlush]\<rparr>)"

definition push_and_flush :: "DeliveryEvent \<Rightarrow> SessionActor \<Rightarrow> SessionActor" where
  "push_and_flush evt s =
     (let s = s\<lparr>sa_outbound := dr_PushBack evt (sa_outbound s)\<rparr>;
          qLen = dr_Len (sa_outbound s);
          s = (if qLen > sa_queueHighWatermark s then s\<lparr>sa_queueHighWatermark := qLen\<rparr> else s)
      in request_flush s)"

definition enqueueDelivery :: "ports \<Rightarrow> DeliveryEvent \<Rightarrow> SessionActor \<Rightarrow> SessionActor" where
  "enqueueDelivery P evt s =
     (if dr_IsFull (sa_outbound s) then
        if sa_policy s = ''drop_newest'' then fst (onDrop P ''queue_full'' (Some evt) s)
        else if sa_policy s = ''drop_oldest'' then
          (case onDrop P ''drop_oldest'' (Some evt)
              (s\<lparr>sa_outbound := dr_DropFront zero_event (sa_outbound s)\<rparr>) of
             (s, disconnected) \<Rightarrow> if disconnected then s else push_and_flush evt s)
        else if sa_policy s = ''priority_drop'' then
          (case priorityDrop evt s of
             (s, False) \<Rightarrow> fst (onDrop P ''priority_drop_self'' (Some evt) s)
           | (s, True) \<Rightarrow>
               (case onDrop P ''priority_drop'' (Some evt) s of
                  (s, disconnected) \<Rightarrow> if disconnected then s else request_flush s))
        else fst (onDrop P ''queue_full'' (Some evt) s)
      else push_and_flush evt s)"

section \<open>Snapshots\<close>

definition clockNowMs :: "int \<Rightarrow> int" where
  "clockNowMs now = now sdiv 1000000"

definition normalizeServerTS :: "int \<Rightarrow> int \<Rightarrow> int" where
  "normalizeServerTS now ts = (if ts > 0 then ts else if clockNowMs now \<le> 0 then 1 else clockNowMs now)"

definition fnvHexHash :: "string \<Rightarrow> string" where
  "fnvHexHash payload =
     (let h = FormatUint (fnv1a fnv64aOffset payload) 16 in replicate (16 - length h) CHR ''0'' @ h)"

definition subject_channel :: "Subject \<Rightarrow> string" where
  "subject_channel subject = channelName (channelEnumFromStreamType (sub_StreamType subject)) (sub_StreamType subject)"

text \<open>The frame of a snapshot that the provider has, with the counter of the session or without.\<close>

definition hot_snapshot_frame :: "ports \<Rightarrow> int \<Rightarrow> Subject \<Rightarrow> string \<Rightarrow> int \<Rightarrow> SessionActor \<Rightarrow> wsSnapshotFrame" where
  "hot_snapshot_frame P now subject payload snapshotSeq s =
     (let item = hotSnapshotRangeItem (pt_snapshotMeta P) payload in
        \<lparr>sf_Subject = subject_String subject, sf_ServerInstanceID = sc_ServerInstanceID (sa_cfg s),
         sf_Seq = ri_Seq item, sf_TsServer = normalizeServerTS now (clockNowMs now),
         sf_Venue = sub_Venue subject, sf_Symbol = sub_Symbol subject, sf_Channel = subject_channel subject,
         sf_Payload = payload, sf_SnapshotSource = ''hot_snapshot_fallback'', sf_SnapshotSeq = snapshotSeq,
         sf_WatermarkSeq = ri_Seq item, sf_SnapshotHash = fnvHexHash payload\<rparr>)"

definition bump_snapshotSeq :: "string \<Rightarrow> SessionActor \<Rightarrow> SessionActor option" where
  "bump_snapshotSeq key s =
     (case map_set key (int_read (sa_snapshotSeq s) key + 1) (sa_snapshotSeq s) of
        None \<Rightarrow> None
      | Some m \<Rightarrow> Some (s\<lparr>sa_snapshotSeq := m\<rparr>))"

definition write_if_fits :: "ports \<Rightarrow> ws_frame \<Rightarrow> SessionActor \<Rightarrow> SessionActor \<times> bool" where
  "write_if_fits P frame s =
     (if \<not> frameFitsMaxBytes P frame s then (fst (onDrop P ''frame_too_large'' None s), False)
      else (writeJSON P frame s, True))"

definition emit_hot_uncached ::
  "ports \<Rightarrow> int \<Rightarrow> Subject \<Rightarrow> string \<Rightarrow> SessionActor \<Rightarrow> (SessionActor \<times> bool) option" where
  "emit_hot_uncached P now subject payload s =
     (case bump_snapshotSeq (subject_String subject) s of
        None \<Rightarrow> None
      | Some s \<Rightarrow>
          Some (write_if_fits P
            (SnapshotFrame (hot_snapshot_frame P now subject payload
               (int_read (sa_snapshotSeq s) (subject_String subject)) s)) s))"

definition build_hot_cached :: "ports \<Rightarrow> int \<Rightarrow> Subject \<Rightarrow> string \<Rightarrow> SessionActor \<Rightarrow> SessionActor \<times> bool" where
  "build_hot_cached P now subject payload s =
     (let frame = hot_snapshot_frame P now subject payload 0 s in
      case pt_size P (SnapshotFrame frame) of
        Inl err \<Rightarrow> (s, False)
      | Inr rawLen \<Rightarrow>
          (case writeJSONRawWithLimits P (SnapshotFrame frame) rawLen s of
             (s, Some err) \<Rightarrow> (fst (onDrop P ''frame_too_large'' None s), False)
           | (s, None) \<Rightarrow>
               (s\<lparr>sa_wireCache := wc_Set (snapshotWireCacheKey subject 0) frame rawLen now (sa_wireCache s)\<rparr>, True)))"

definition emit_hot_cached :: "ports \<Rightarrow> int \<Rightarrow> Subject \<Rightarrow> string \<Rightarrow> SessionActor \<Rightarrow> SessionActor \<times> bool" where
  "emit_hot_cached P now subject payload s =
     (case wc_Get (snapshotWireCacheKey subject 0) now (sa_wireCache s) of
        (found, hit) \<Rightarrow>
          let s = s\<lparr>sa_wireCache := found\<rparr> in
          case hit of
            Some cached \<Rightarrow>
              (case writeJSONRawWithLimits P (SnapshotFrame cached)
                   (case pt_size P (SnapshotFrame cached) of Inr n \<Rightarrow> n | Inl _ \<Rightarrow> 0) s of
                 (s, None) \<Rightarrow> (s, True)
               | (s, Some err) \<Rightarrow> build_hot_cached P now subject payload s)
          | None \<Rightarrow> build_hot_cached P now subject payload s)"

definition emit_last :: "ports \<Rightarrow> int \<Rightarrow> Subject \<Rightarrow> SessionActor \<Rightarrow> (SessionActor \<times> bool) option" where
  "emit_last P now subject s =
     (let key = subject_String subject in
      case map_read (sa_lastSnapshot s) key of
        None \<Rightarrow> Some (s, False)
      | Some entry \<Rightarrow>
          if length (se_Payload entry) = 0 \<or> \<not> pt_valid P (se_Payload entry) then Some (s, False)
          else
            (case bump_snapshotSeq key s of
               None \<Rightarrow> None
             | Some s \<Rightarrow>
                 Some (write_if_fits P
                   (SnapshotFrame
                      \<lparr>sf_Subject = key, sf_ServerInstanceID = sc_ServerInstanceID (sa_cfg s),
                       sf_Seq = se_Seq entry, sf_TsServer = normalizeServerTS now (se_TsServer entry),
                       sf_Venue = se_Venue entry, sf_Symbol = se_Symbol entry, sf_Channel = se_Channel entry,
                       sf_Payload = se_Payload entry, sf_SnapshotSource = ''session_last_event'',
                       sf_SnapshotSeq = int_read (sa_snapshotSeq s) key, sf_WatermarkSeq = se_Seq entry,
                       sf_SnapshotHash = fnvHexHash (se_Payload entry)\<rparr>) s)))"

definition hot_latest :: "ports \<Rightarrow> Subject \<Rightarrow> string" where
  "hot_latest P subject =
     (case pt_hot P of None \<Rightarrow> '''' | Some latest \<Rightarrow> (case latest subject of None \<Rightarrow> '''' | Some raw \<Rightarrow> raw))"

definition emitSnapshot :: "ports \<Rightarrow> int \<Rightarrow> Subject \<Rightarrow> SessionActor \<Rightarrow> (SessionActor \<times> bool) option" where
  "emitSnapshot P now subject s =
     (let raw = hot_latest P subject in
      if length raw > 0 \<and> pt_valid P raw then
        if \<not> sc_hasSnapshotWireCache (sa_cfg s) then emit_hot_uncached P now subject raw s
        else Some (emit_hot_cached P now subject raw s)
      else emit_last P now subject s)"

definition emitHotSnapshot :: "ports \<Rightarrow> int \<Rightarrow> Subject \<Rightarrow> SessionActor \<Rightarrow> (SessionActor \<times> bool) option" where
  "emitHotSnapshot P now subject s =
     (if length (hot_latest P subject) = 0 then Some (s, False) else emitSnapshot P now subject s)"

section \<open>Writing events\<close>

definition prepareJSONPayload :: "ports \<Rightarrow> Envelope \<Rightarrow> string result" where
  "prepareJSONPayload P env =
     (if env_ContentType env \<noteq> ContentTypeProto then Inr (env_Payload env) else pt_transcode P env)"

text \<open>A subject whose snapshot was missing at subscription gets it before its next event.\<close>

definition retry_deferred :: "ports \<Rightarrow> int \<Rightarrow> Subject \<Rightarrow> SessionActor \<Rightarrow> SessionActor option" where
  "retry_deferred P now subject s =
     (case map_read (sa_deferredSnapshotSubjects s) (subject_String subject) of
        None \<Rightarrow> Some s
      | Some _ \<Rightarrow>
          (case emitHotSnapshot P now subject s of
             None \<Rightarrow> None
           | Some (s, sent) \<Rightarrow>
               Some (if sent
                     then s\<lparr>sa_deferredSnapshotSubjects :=
                            map_delete (subject_String subject) (sa_deferredSnapshotSubjects s)\<rparr>
                     else s)))"

text \<open>What a successful write of one event records: its number, the counters and the last payload.\<close>

definition record_delivered :: "string \<Rightarrow> int \<Rightarrow> int \<Rightarrow> SessionActor \<Rightarrow> SessionActor option" where
  "record_delivered key seq lag s =
     (case map_set key seq (sa_lastDeliveredSeq s) of
        None \<Rightarrow> None
      | Some m \<Rightarrow> Some (s\<lparr>sa_lastDeliveredSeq := m, sa_messagesOut := sa_messagesOut s + 1, sa_lastLagMs := lag\<rparr>))"

definition record_payload :: "ports \<Rightarrow> string \<Rightarrow> sessionSnapshotEntry \<Rightarrow> SessionActor \<Rightarrow> SessionActor option" where
  "record_payload P key entry s =
     (if pt_valid P (se_Payload entry) then
        (case map_set key entry (sa_lastSnapshot s) of None \<Rightarrow> None | Some m \<Rightarrow> Some (s\<lparr>sa_lastSnapshot := m\<rparr>))
      else Some s)"

definition proto_envelope :: "int \<Rightarrow> Subject \<Rightarrow> string \<Rightarrow> int \<Rightarrow> Envelope \<Rightarrow> SessionActor \<Rightarrow> Envelope" where
  "proto_envelope tsServer subject channel prevSeq env s =
     (let m = AList.update ''protocol_version'' ''1'' (env_Meta env);
          m = AList.update ''server_instance_id'' (sc_ServerInstanceID (sa_cfg s)) m;
          m = AList.update ''stream_id'' (subject_String subject) m;
          m = AList.update ''channel'' channel m;
          m = AList.update ''ts_server'' (Itoa tsServer) m;
          m = (if prevSeq > 0 then AList.update ''prev_seq'' (Itoa prevSeq) m else m)
      in env\<lparr>env_Meta := m\<rparr>)"

definition too_large :: "int \<Rightarrow> SessionActor \<Rightarrow> bool" where
  "too_large wireSize s \<longleftrightarrow> el_MaxFrameBytes (sa_limits s) > 0 \<and> wireSize > el_MaxFrameBytes (sa_limits s)"

definition write_proto_event ::
  "ports \<Rightarrow> int \<Rightarrow> DeliveryEvent \<Rightarrow> SessionActor \<Rightarrow> (SessionActor \<times> problem option) option" where
  "write_proto_event P tsServer evt s =
     (let subject = de_Subject evt; env = de_Env evt; key = subject_String subject;
          prevSeq = int_read (sa_lastDeliveredSeq s) key in
      case pt_marshalProto P (proto_envelope tsServer subject (subject_channel subject) prevSeq env s) of
        Inl p \<Rightarrow> Some (s, Some p)
      | Inr raw \<Rightarrow>
          (case planWireCompression P (ProtoFrame raw) (int (length raw)) s of
             (applyCompression, wireSize) \<Rightarrow>
               if too_large wireSize s then Some (fst (onDrop P ''frame_too_large'' (Some evt) s), None)
               else
                 (case writeRawMessage P (ProtoFrame raw) s of
                    (s, Some err) \<Rightarrow> Some (s, Some (Wrap err Internal ''proto write failed''))
                  | (s, None) \<Rightarrow>
                      (case record_delivered key (env_Seq env) (tsServer - env_TsIngest env) s of
                         None \<Rightarrow> None
                       | Some s \<Rightarrow> Some (s, None)))))"

text \<open>A JSON frame, for events and for signals alike.\<close>

definition write_json_frame ::
  "ports \<Rightarrow> ws_frame \<Rightarrow> DeliveryEvent \<Rightarrow> sessionSnapshotEntry \<Rightarrow> string \<Rightarrow> string \<Rightarrow> SessionActor \<Rightarrow>
   (SessionActor \<times> problem option) option" where
  "write_json_frame P frame evt entry marshalFailed writeFailed s =
     (let key = subject_String (de_Subject evt) in
      case pt_size P frame of
        Inl err \<Rightarrow> Some (s, Some (Wrap err Internal marshalFailed))
      | Inr rawLen \<Rightarrow>
          (case planWireCompression P frame rawLen s of
             (applyCompression, wireSize) \<Rightarrow>
               if too_large wireSize s then Some (fst (onDrop P ''frame_too_large'' (Some evt) s), None)
               else
                 (case (if applyCompression then writeRawMessage P frame s else writeJSONDirect P frame s) of
                    (s, Some err) \<Rightarrow> Some (s, Some (Wrap err Internal writeFailed))
                  | (s, None) \<Rightarrow>
                      (case record_delivered key (se_Seq entry) (se_TsServer entry - env_TsIngest (de_Env evt)) s of
                         None \<Rightarrow> None
                       | Some s \<Rightarrow>
                           (case record_payload P key entry s of None \<Rightarrow> None | Some s \<Rightarrow> Some (s, None))))))"

definition writeDeliveryEvent ::
  "ports \<Rightarrow> int \<Rightarrow> DeliveryEvent \<Rightarrow> SessionActor \<Rightarrow> (SessionActor \<times> problem option) option" where
  "writeDeliveryEvent P now evt s =
     (let subject = de_Subject evt; env = de_Env evt; key = subject_String subject;
          tsServer = normalizeServerTS now (clockNowMs now); channel = subject_channel subject in
      case retry_deferred P now subject s of
        None \<Rightarrow> None
      | Some s \<Rightarrow>
          let prevSeq = int_read (sa_lastDeliveredSeq s) key;
              entry = \<lparr>se_Seq = env_Seq env, se_TsServer = tsServer, se_Venue = sub_Venue subject,
                       se_Symbol = sub_Symbol subject, se_Channel = channel, se_Payload = ''''\<rparr> in
          if sc_PreferProto (sa_cfg s) \<and> pt_protoRollout P (env_Type env) then write_proto_event P tsServer evt s
          else
            (case prepareJSONPayload P env of
               Inl p \<Rightarrow> Some (s, Some p)
             | Inr payload \<Rightarrow>
                 if IsSignal subject then
                   (case prepareSignalFramePayload (pt_signal P) payload of
                      Inl p \<Rightarrow> Some (s, Some p)
                    | Inr signalPayload \<Rightarrow>
                        write_json_frame P
                          (SignalFrame \<lparr>gf_Subject = key, gf_Seq = env_Seq env, gf_TsServer = tsServer,
                             gf_Payload = signalPayload\<rparr>)
                          evt (entry\<lparr>se_Channel := ''signal'', se_Payload := payload\<rparr>)
                          ''signal frame marshal failed'' ''signal frame write failed'' s)
                 else
                   write_json_frame P
                     (EventFrame \<lparr>ef_Subject = key, ef_StreamID = key,
                        ef_ServerInstanceID = sc_ServerInstanceID (sa_cfg s), ef_Seq = env_Seq env,
                        ef_PrevSeq = prevSeq, ef_TsIngest = env_TsIngest env, ef_TsServer = tsServer,
                        ef_Venue = sub_Venue subject, ef_Symbol = sub_Symbol subject, ef_Channel = channel,
                        ef_Payload = payload\<rparr>)
                     evt (entry\<lparr>se_Payload := payload\<rparr>)
                     ''json marshal failed'' ''json write failed'' s))"

section \<open>Batches\<close>

record preparedBatchEvent =
  pb_seq :: int
  pb_prevSeq :: int
  pb_tsIngest :: int
  pb_tsServer :: int
  pb_payload :: string

fun candidate_loop :: "DeliveryEvent deliveryRing \<Rightarrow> Subject \<Rightarrow> nat \<Rightarrow> nat \<Rightarrow> nat" where
  "candidate_loop r subject i 0 = i"
| "candidate_loop r subject i (Suc n) =
     (if de_Subject (dr_At i r) \<noteq> subject then i else candidate_loop r subject (Suc i) n)"

fun prepare_batch :: "ports \<Rightarrow> int \<Rightarrow> int \<Rightarrow> DeliveryEvent list \<Rightarrow> preparedBatchEvent list result" where
  "prepare_batch P tsServer prevSeq [] = Inr []"
| "prepare_batch P tsServer prevSeq (evt # evts) =
     (case prepareJSONPayload P (de_Env evt) of
        Inl p \<Rightarrow> Inl p
      | Inr payload \<Rightarrow>
          (case prepare_batch P tsServer (env_Seq (de_Env evt)) evts of
             Inl p \<Rightarrow> Inl p
           | Inr preps \<Rightarrow>
               Inr (\<lparr>pb_seq = env_Seq (de_Env evt), pb_prevSeq = prevSeq, pb_tsIngest = env_TsIngest (de_Env evt),
                     pb_tsServer = tsServer, pb_payload = payload\<rparr> # preps)))"

text \<open>Sequence numbers and times are non-negative 64-bit integers, so that a difference does not wrap.\<close>

definition batch_item :: "preparedBatchEvent \<Rightarrow> preparedBatchEvent \<Rightarrow> wsBatchItem" where
  "batch_item base prep =
     \<lparr>bi_SeqDelta = pb_seq prep - pb_seq base, bi_PrevSeqDelta = pb_prevSeq prep - pb_prevSeq base,
      bi_TsServerDelta = pb_tsServer prep - pb_tsServer base,
      bi_TsIngestDelta = pb_tsIngest prep - pb_tsIngest base, bi_Payload = pb_payload prep\<rparr>"

definition batch_frame :: "Subject \<Rightarrow> preparedBatchEvent list \<Rightarrow> SessionActor \<Rightarrow> ws_frame" where
  "batch_frame subject preps s =
     BatchFrame
       \<lparr>bf_StreamID = subject_String subject, bf_ServerInstanceID = sc_ServerInstanceID (sa_cfg s),
        bf_Venue = sub_Venue subject, bf_Symbol = sub_Symbol subject, bf_Channel = subject_channel subject,
        bf_BaseSeq = pb_seq (hd preps), bf_Count = length preps, bf_TsServerBase = pb_tsServer (hd preps),
        bf_TsIngestBase = pb_tsIngest (hd preps), bf_Events = map (batch_item (hd preps)) preps\<rparr>"

fun record_batch :: "ports \<Rightarrow> Subject \<Rightarrow> preparedBatchEvent list \<Rightarrow> SessionActor \<Rightarrow> SessionActor option" where
  "record_batch P subject [] s = Some s"
| "record_batch P subject (prep # preps) s =
     (let key = subject_String subject;
          s = (case dr_PopFront zero_event (sa_outbound s) of None \<Rightarrow> s | Some (_, r) \<Rightarrow> s\<lparr>sa_outbound := r\<rparr>) in
      case record_delivered key (pb_seq prep) (pb_tsServer prep - pb_tsIngest prep) s of
        None \<Rightarrow> None
      | Some s \<Rightarrow>
          (case record_payload P key
               \<lparr>se_Seq = pb_seq prep, se_TsServer = pb_tsServer prep, se_Venue = sub_Venue subject,
                se_Symbol = sub_Symbol subject, se_Channel = subject_channel subject, se_Payload = pb_payload prep\<rparr> s of
             None \<Rightarrow> None
           | Some s \<Rightarrow> record_batch P subject preps s))"

text \<open>The longest prefix of at least two events whose frame fits is written.\<close>

fun batch_loop ::
  "ports \<Rightarrow> Subject \<Rightarrow> preparedBatchEvent list \<Rightarrow> nat \<Rightarrow> SessionActor \<Rightarrow> (SessionActor \<times> nat \<times> problem option) option" where
  "batch_loop P subject preps 0 s =
     Some (s, 0, Some (Newf ValidationFailed ''batch candidate does not fit max_frame_bytes: stream_id=%s candidates=%d max_frame_bytes=%d''))"
| "batch_loop P subject preps (Suc n) s =
     (if n = 0 then
        Some (s, 0, Some (Newf ValidationFailed ''batch candidate does not fit max_frame_bytes: stream_id=%s candidates=%d max_frame_bytes=%d''))
      else
        let frame = batch_frame subject (take (Suc n) preps) s in
        case pt_size P frame of
          Inl err \<Rightarrow> Some (s, 0, Some (Wrap err Internal ''batch marshal failed''))
        | Inr rawLen \<Rightarrow>
            (case planWireCompression P frame rawLen s of
               (applyCompression, wireSize) \<Rightarrow>
                 if too_large wireSize s then batch_loop P subject preps n s
                 else
                   (case writeRawMessage P frame s of
                      (s, Some err) \<Rightarrow> Some (s, 0, Some (Wrap err Internal ''batch write failed''))
                    | (s, None) \<Rightarrow>
                        (case record_batch P subject (take (Suc n) preps) s of
                           None \<Rightarrow> None
                         | Some s \<Rightarrow> Some (s, Suc n, None)))))"

definition writeDeliveryBatchFromQueue ::
  "ports \<Rightarrow> int \<Rightarrow> nat \<Rightarrow> SessionActor \<Rightarrow> (SessionActor \<times> nat \<times> problem option) option" where
  "writeDeliveryBatchFromQueue P now maxItems s =
     (let maxItems = min (min maxItems wsFlushBatchSize) (dr_Len (sa_outbound s)) in
      if maxItems < 2 then Some (s, 0, None)
      else
        let subject = de_Subject (dr_At 0 (sa_outbound s)) in
        case retry_deferred P now subject s of
          None \<Rightarrow> None
        | Some s \<Rightarrow>
            let candidateCount = candidate_loop (sa_outbound s) subject 1 (maxItems - 1) in
            if candidateCount < 2 then Some (s, 0, None)
            else
              (case prepare_batch P (normalizeServerTS now (clockNowMs now))
                  (int_read (sa_lastDeliveredSeq s) (subject_String subject))
                  (map (\<lambda>i. dr_At i (sa_outbound s)) [0..<candidateCount]) of
                 Inl p \<Rightarrow> Some (s, 0, Some p)
               | Inr preps \<Rightarrow> batch_loop P subject preps candidateCount s))"

section \<open>Flushing the queue\<close>

text \<open>
  One round of the loop of \<open>flushOutbound\<close>: the state, whether the loop goes on, and then the number of
  events written less one.
\<close>

definition flush_one :: "ports \<Rightarrow> int \<Rightarrow> SessionActor \<Rightarrow> (SessionActor \<times> nat option) option" where
  "flush_one P now s =
     (case dr_PopFront zero_event (sa_outbound s) of
        None \<Rightarrow> Some (s\<lparr>sa_flushing := False\<rparr>, None)
      | Some (evt, r) \<Rightarrow>
          (case writeDeliveryEvent P now evt (s\<lparr>sa_outbound := r\<rparr>) of
             None \<Rightarrow> None
           | Some (s, Some p) \<Rightarrow> Some (closeSession s, None)
           | Some (s, None) \<Rightarrow> Some (s, Some 0)))"

definition flush_step :: "ports \<Rightarrow> int \<Rightarrow> nat \<Rightarrow> SessionActor \<Rightarrow> (SessionActor \<times> nat option) option" where
  "flush_step P now remaining s =
     (if HasBatching (sa_features s) \<and> \<not> sc_PreferProto (sa_cfg s) then
        (case writeDeliveryBatchFromQueue P now remaining s of
           None \<Rightarrow> None
         | Some (s, sent, Some p) \<Rightarrow> Some (closeSession s, None)
         | Some (s, sent, None) \<Rightarrow> if sent > 0 then Some (s, Some (sent - 1)) else flush_one P now s)
      else flush_one P now s)"

function flush_loop :: "ports \<Rightarrow> int \<Rightarrow> nat \<Rightarrow> SessionActor \<Rightarrow> SessionActor option" where
  "flush_loop P now remaining s =
     (if remaining = 0 then
        Some (if dr_Len (sa_outbound s) > 0 then s\<lparr>sa_out := sa_out s @ [ToSelfFlush]\<rparr> else s\<lparr>sa_flushing := False\<rparr>)
      else
        case flush_step P now remaining s of
          None \<Rightarrow> None
        | Some (s, None) \<Rightarrow> Some s
        | Some (s, Some k) \<Rightarrow> flush_loop P now (remaining - Suc k) s)"
  by pat_completeness auto

termination
  by (relation "measure (\<lambda>(P, now, remaining, s). remaining)") auto

declare flush_loop.simps [simp del]

definition flushOutbound :: "ports \<Rightarrow> int \<Rightarrow> SessionActor \<Rightarrow> SessionActor option" where
  "flushOutbound P now s =
     (if sa_closed s then Some (s\<lparr>sa_flushing := False\<rparr>) else flush_loop P now wsFlushBatchSize s)"

section \<open>Commands\<close>

definition ack_frame :: "string \<Rightarrow> string \<Rightarrow> string \<Rightarrow> int \<Rightarrow> int \<Rightarrow> ws_frame" where
  "ack_frame op requestID subject watermarkSeq snapshotSeq =
     AckFrame \<lparr>af_Op = op, af_RequestID = requestID, af_Subject = subject, af_WatermarkSeq = watermarkSeq,
       af_SnapshotSeq = snapshotSeq\<rparr>"

definition emitHello :: "ports \<Rightarrow> int \<Rightarrow> SessionActor \<Rightarrow> SessionActor" where
  "emitHello P now s =
     (if \<not> sc_hasConn (sa_cfg s) then s
      else writeJSON P (HelloFrame (clockNowMs now) (sc_ServerInstanceID (sa_cfg s))
             (ToHelloCapabilities (sa_limits s) (sc_CompressionEnabled (sa_cfg s)))) s)"

definition handleClientHello :: "ports \<Rightarrow> int \<Rightarrow> clientCommand \<Rightarrow> SessionActor \<Rightarrow> SessionActor" where
  "handleClientHello P now cmd s =
     (let s = s\<lparr>sa_helloSeen := True\<rparr>;
          (nf, _, unknown) = NegotiateFeatures (cmd_RequestedFeatures cmd) (sc_CompressionEnabled (sa_cfg s)) in
      if length (cmd_RequestedFeatures cmd) > 0 \<and> length unknown > 0 then
        writeProblem P ''hello'' (cmd_RequestID cmd) (Newf ValidationFailed ''unsupported features: %s'') s
      else
        let s = (if length (cmd_RequestedFeatures cmd) > 0 then s\<lparr>sa_features := nf\<rparr> else s) in
        writeJSON P (HelloAckFrame
          \<lparr>ha_RequestID = cmd_RequestID cmd, ha_NegotiatedFeatures = feature_List (sa_features s),
           ha_TsServer = clockNowMs now,
           ha_ClockSkewMs = (if cmd_TsClient cmd > 0 then clockNowMs now - cmd_TsClient cmd else 0)\<rparr>) s)"

definition requireHelloGate :: "ports \<Rightarrow> string \<Rightarrow> string \<Rightarrow> SessionActor \<Rightarrow> SessionActor \<times> bool" where
  "requireHelloGate P op requestID s =
     (if \<not> sc_RequireClientHello (sa_cfg s) \<or> sa_helloSeen s then (s, False)
      else (writeProblem P op requestID
              (New ValidationFailed (''client hello required before '' @ op @ ''; send {\"op\":\"hello\"} first'')) s, True))"

definition handlePing :: "ports \<Rightarrow> int \<Rightarrow> clientCommand \<Rightarrow> SessionActor \<Rightarrow> SessionActor" where
  "handlePing P now cmd s =
     writeJSON P (PongFrame \<lparr>pf_RequestID = TrimSpace (cmd_RequestID cmd), pf_TsClient = cmd_TsClient cmd,
       pf_TsServer = normalizeServerTS now (clockNowMs now)\<rparr>) s"

definition allowRateLimitedCommand :: "ports \<Rightarrow> int \<Rightarrow> string \<Rightarrow> string \<Rightarrow> SessionActor \<Rightarrow> SessionActor \<times> bool" where
  "allowRateLimitedCommand P now op requestID s =
     (if op \<notin> set [''subscribe'', ''getrange'', ''resync'', ''ping''] then (s, True)
      else case Allow now (sa_rateLimiter s) of
        (limiter, ok) \<Rightarrow>
          let s = s\<lparr>sa_rateLimiter := limiter\<rparr> in
          if ok then (s, True)
          else (writeProblem P op requestID
                  (withWSLimitProblemDetails (New Unavailable ''rate limit exceeded'') wsLimitTypeRateLimit
                     ''ACTION_HINT_RETRY'') s, False))"

definition enforceSubscriptionLimits :: "Subject \<Rightarrow> SessionActor \<Rightarrow> problem option" where
  "enforceSubscriptionLimits subject s =
     (let ses = sa_session s; lim = sa_limits s; alreadySubscribed = ses_IsSubscribed subject ses in
      if IsSignal subject \<and> el_MaxSignalSubscriptions lim > 0 \<and> \<not> alreadySubscribed \<and>
         int (SignalSubscriptionCount ses) \<ge> el_MaxSignalSubscriptions lim then
        Some (withWSLimitProblemDetails
          (Newf ValidationFailed ''max signal subscriptions per connection exceeded (%d)'')
          wsLimitTypeMaxSubscriptions ''ACTION_HINT_NONE'')
      else if el_MaxSubscriptions lim > 0 \<and> \<not> alreadySubscribed \<and>
              int (length (ses_Subscriptions ses)) \<ge> el_MaxSubscriptions lim then
        Some (withWSLimitProblemDetails
          (Newf ValidationFailed ''max subscriptions per connection exceeded (%d)'')
          wsLimitTypeMaxSubscriptions ''ACTION_HINT_NONE'')
      else if el_MaxSymbolsPerConnection lim \<le> 0 then None
      else if alreadySubscribed then None
      else
        let symbols = remdups (sub_Symbol subject # map (\<lambda>sub. sub_Symbol (sb_Subject sub)) (ses_Subscriptions ses)) in
        if int (length symbols) > el_MaxSymbolsPerConnection lim then
          Some (withWSLimitProblemDetails
            (Newf ValidationFailed ''max symbols per connection exceeded (%d)'')
            wsLimitTypeMaxSymbols ''ACTION_HINT_NONE'')
        else None)"

definition response_too_large :: problem where
  "response_too_large =
     withWSLimitProblemDetails (Newf ValidationFailed ''response exceeds max_frame_bytes (%d)'')
       wsLimitTypeMaxFrameBytes ''ACTION_HINT_NONE''"

definition max_seq :: "RangeItem list \<Rightarrow> int" where
  "max_seq items = foldl (\<lambda>w it. if ri_Seq it > w then ri_Seq it else w) 0 items"

definition emitRangeFrame ::
  "ports \<Rightarrow> string \<Rightarrow> string \<Rightarrow> Subject \<Rightarrow> getRangeParams \<Rightarrow> bool \<Rightarrow> SessionActor \<Rightarrow> SessionActor" where
  "emitRangeFrame P op requestID subject params bestEffort s =
     (let page = (if gp_Page params \<le> 0 then 1 else gp_Page params);
          limit = (if gp_Limit params \<le> 0 then defaultRangeLimit else gp_Limit params) in
      case service_GetRange (pt_rangeStore P) (subject_String subject) (gp_FromMs params) (gp_ToMs params) maxQueryLimit of
        Inl p \<Rightarrow> if bestEffort then s else writeProblem P op requestID p s
      | Inr stored \<Rightarrow>
          let items = sortRangeItems stored;
              raw = hot_latest P subject;
              hot = (length items = 0 \<and> page = 1 \<and> gp_FromMs params = 0 \<and> gp_ToMs params = 0 \<and> length raw > 0);
              items = (if hot then [hotSnapshotRangeItem (pt_snapshotMeta P) raw] else items);
              items = paginateTail items page limit;
              items = (if length items > maxResponseItems then drop (length items - maxResponseItems) items else items);
              frame = RangeFrame
                \<lparr>rf_Op = (if TrimSpace op = '''' then ''backfill'' else op), rf_RequestID = requestID,
                 rf_Subject = subject_String subject, rf_Page = page, rf_Limit = limit, rf_Items = items,
                 rf_SnapshotSource = (if hot then ''hot_snapshot_fallback'' else ''''),
                 rf_WatermarkSeq = max_seq items\<rparr>
          in if \<not> frameFitsMaxBytes P frame s then
               if bestEffort then s else writeProblem P op requestID response_too_large s
             else writeJSON P frame s)"

definition executeGetRange :: "ports \<Rightarrow> string \<Rightarrow> string \<Rightarrow> string \<Rightarrow> getRangeParams \<Rightarrow> SessionActor \<Rightarrow> SessionActor" where
  "executeGetRange P op requestID subjectRaw params s =
     (case ParseSubject subjectRaw of
        Inl p \<Rightarrow> writeProblem P op requestID p s
      | Inr subject \<Rightarrow>
          let page = (if gp_Page params \<le> 0 then 1 else gp_Page params);
              limit = (if gp_Limit params \<le> 0 then defaultRangeLimit else gp_Limit params) in
          if limit > maxLimit then writeProblem P op requestID (Newf ValidationFailed ''limit must be <= %d'') s
          else if page > maxPage then writeProblem P op requestID (Newf ValidationFailed ''page must be <= %d'') s
          else if limit * page > maxQueryLimit then
            writeProblem P op requestID (Newf ValidationFailed ''limit*page must be <= %d'') s
          else emitRangeFrame P op requestID subject params False s)"

definition handleGetRange :: "ports \<Rightarrow> int \<Rightarrow> clientCommand \<Rightarrow> SessionActor \<Rightarrow> SessionActor" where
  "handleGetRange P now cmd s =
     (case requireHelloGate P ''getrange'' (cmd_RequestID cmd) s of
        (s, True) \<Rightarrow> s
      | (s, False) \<Rightarrow>
          (case allowRateLimitedCommand P now ''getrange'' (cmd_RequestID cmd) s of
             (s, False) \<Rightarrow> s
           | (s, True) \<Rightarrow>
               (case (if length (cmd_Params cmd) \<noteq> 0 then pt_params P (cmd_Params cmd)
                      else Inr \<lparr>gp_FromMs = 0, gp_ToMs = 0, gp_Limit = 0, gp_Page = 0\<rparr>) of
                  Inl err \<Rightarrow>
                    writeProblem P (cmd_Op cmd) (cmd_RequestID cmd) (Wrap err ValidationFailed ''invalid getrange params'') s
                | Inr params \<Rightarrow>
                    (case resolveCommandSubject cmd of
                       Inl p \<Rightarrow> writeProblem P (cmd_Op cmd) (cmd_RequestID cmd) p s
                     | Inr subject \<Rightarrow>
                         executeGetRange P (cmd_Op cmd) (cmd_RequestID cmd) (subject_String subject) params s))))"

definition handleGetRangeRequest ::
  "ports \<Rightarrow> int \<Rightarrow> string \<Rightarrow> string \<Rightarrow> getRangeParams \<Rightarrow> SessionActor \<Rightarrow> SessionActor" where
  "handleGetRangeRequest P now requestID subjectRaw params s =
     (case allowRateLimitedCommand P now ''getrange'' requestID s of
        (s, False) \<Rightarrow> s
      | (s, True) \<Rightarrow> executeGetRange P ''getrange'' requestID subjectRaw params s)"

definition handleGetLast :: "ports \<Rightarrow> clientCommand \<Rightarrow> SessionActor \<Rightarrow> SessionActor" where
  "handleGetLast P cmd s =
     (case resolveCommandSubject cmd of
        Inl p \<Rightarrow> writeProblem P (cmd_Op cmd) (cmd_RequestID cmd) p s
      | Inr subject \<Rightarrow>
          (case service_GetRange (pt_rangeStore P) (subject_String subject) 0 0 maxQueryLimit of
             Inl p \<Rightarrow> writeProblem P (cmd_Op cmd) (cmd_RequestID cmd) p s
           | Inr stored \<Rightarrow>
               let items = sortRangeItems stored;
                   raw = hot_latest P subject;
                   (item, source) =
                     (if length items > 0 then (Some (last items), '''')
                      else if length raw > 0
                      then (Some (hotSnapshotRangeItem (pt_snapshotMeta P) raw), ''hot_snapshot_fallback'')
                      else (None, ''''));
                   frame = LastFrame \<lparr>lf_Op = cmd_Op cmd, lf_RequestID = cmd_RequestID cmd,
                     lf_Subject = subject_String subject, lf_Item = item, lf_SnapshotSource = source\<rparr>
               in if \<not> frameFitsMaxBytes P frame s
                  then writeProblem P (cmd_Op cmd) (cmd_RequestID cmd) response_too_large s
                  else writeJSON P frame s))"

definition emitSubscribeBackfill :: "ports \<Rightarrow> Subject \<Rightarrow> SessionActor \<Rightarrow> SessionActor" where
  "emitSubscribeBackfill P subject s =
     (if \<not> HasBatching (sa_features s) then s
      else if ToLower (TrimSpace (sub_StreamType subject)) \<noteq> ''aggregation.candle'' then s
      else emitRangeFrame P ''backfill'' '''' subject
             \<lparr>gp_FromMs = 0, gp_ToMs = 0, gp_Limit = subscribeBackfillLimit, gp_Page = 1\<rparr> True s)"

definition send_router :: "router_msg \<Rightarrow> SessionActor \<Rightarrow> SessionActor" where
  "send_router msg s = (if sc_hasRouter (sa_cfg s) then s\<lparr>sa_out := sa_out s @ [ToRouter msg]\<rparr> else s)"

text \<open>A snapshot that is missing at subscription is sent before the first event of its subject.\<close>

definition defer_snapshot :: "ports \<Rightarrow> Subject \<Rightarrow> bool \<Rightarrow> SessionActor \<Rightarrow> SessionActor option" where
  "defer_snapshot P subject sent s =
     (if \<not> sent \<and> pt_hot P \<noteq> None
      then (case map_set (subject_String subject) () (sa_deferredSnapshotSubjects s) of
              None \<Rightarrow> None
            | Some m \<Rightarrow> Some (s\<lparr>sa_deferredSnapshotSubjects := m\<rparr>))
      else Some s)"

text \<open>The second half of \<open>handleSubscribe\<close>, once the limits allow the subject.\<close>

definition subscribe_admitted :: "ports \<Rightarrow> int \<Rightarrow> clientCommand \<Rightarrow> Subject \<Rightarrow> SessionActor \<Rightarrow> SessionActor option" where
  "subscribe_admitted P now cmd subject s =
     (case emitSnapshot P now subject
         (s\<lparr>sa_session := ses_Subscribe subject (f64_of_int 0) (sa_session s)\<rparr>) of
        None \<Rightarrow> None
      | Some (s, sent) \<Rightarrow>
          (case defer_snapshot P subject sent s of
             None \<Rightarrow> None
           | Some s \<Rightarrow>
               let s = send_router (SubscribeSession (ses_id (sa_session s)) subject) s;
                   s = writeJSON P (ack_frame (cmd_Op cmd) (cmd_RequestID cmd) (subject_String subject) 0 0) s
               in Some (emitSubscribeBackfill P subject s)))"

definition handleSubscribe :: "ports \<Rightarrow> int \<Rightarrow> clientCommand \<Rightarrow> SessionActor \<Rightarrow> SessionActor option" where
  "handleSubscribe P now cmd s =
     (case requireHelloGate P ''subscribe'' (cmd_RequestID cmd) s of
        (s, True) \<Rightarrow> Some s
      | (s, False) \<Rightarrow>
          (case allowRateLimitedCommand P now ''subscribe'' (cmd_RequestID cmd) s of
             (s, False) \<Rightarrow> Some s
           | (s, True) \<Rightarrow>
               (case resolveCommandSubject cmd of
                  Inl p \<Rightarrow> Some (writeProblem P ''subscribe'' (cmd_RequestID cmd) p s)
                | Inr subject \<Rightarrow>
                    (case enforceSubscriptionLimits subject s of
                       Some p \<Rightarrow> Some (writeProblem P ''subscribe'' (cmd_RequestID cmd) p s)
                     | None \<Rightarrow> subscribe_admitted P now cmd subject s))))"

definition handleUnsubscribe :: "ports \<Rightarrow> clientCommand \<Rightarrow> SessionActor \<Rightarrow> SessionActor" where
  "handleUnsubscribe P cmd s =
     (case resolveCommandSubject cmd of
        Inl p \<Rightarrow> writeProblem P ''unsubscribe'' (cmd_RequestID cmd) p s
      | Inr subject \<Rightarrow>
          (case ses_Unsubscribe subject (sa_session s) of
             (_, Some p) \<Rightarrow> writeProblem P (cmd_Op cmd) (cmd_RequestID cmd) p s
           | (ses, None) \<Rightarrow>
               let key = subject_String subject;
                   s = s\<lparr>sa_session := ses, sa_lastSnapshot := map_delete key (sa_lastSnapshot s),
                         sa_snapshotSeq := map_delete key (sa_snapshotSeq s),
                         sa_lastDeliveredSeq := map_delete key (sa_lastDeliveredSeq s),
                         sa_deferredSnapshotSubjects := map_delete key (sa_deferredSnapshotSubjects s)\<rparr>;
                   s = send_router (UnsubscribeSession (ses_id (sa_session s)) subject) s
               in writeJSON P (ack_frame (cmd_Op cmd) (cmd_RequestID cmd) key 0 0) s))"

definition handleResync :: "ports \<Rightarrow> int \<Rightarrow> clientCommand \<Rightarrow> SessionActor \<Rightarrow> SessionActor option" where
  "handleResync P now cmd s =
     (case requireHelloGate P ''resync'' (cmd_RequestID cmd) s of
        (s, True) \<Rightarrow> Some s
      | (s, False) \<Rightarrow>
          (case allowRateLimitedCommand P now ''resync'' (cmd_RequestID cmd) s of
             (s, False) \<Rightarrow> Some s
           | (s, True) \<Rightarrow>
               (case resolveCommandSubject cmd of
                  Inl p \<Rightarrow> Some (writeProblem P ''resync'' (cmd_RequestID cmd) p s)
                | Inr subject \<Rightarrow>
                    if \<not> ses_IsSubscribed subject (sa_session s) then
                      Some (writeProblem P ''resync'' (cmd_RequestID cmd) (Newf NotFound ''not subscribed to stream %q'') s)
                    else
                      (case emitSnapshot P now subject s of
                         None \<Rightarrow> None
                       | Some (s, False) \<Rightarrow>
                           Some (writeProblem P ''resync'' (cmd_RequestID cmd)
                             (New NotFound ''snapshot unavailable for requested stream'') s)
                       | Some (s, True) \<Rightarrow>
                           let key = subject_String subject;
                               s = s\<lparr>sa_lastDeliveredSeq := map_delete key (sa_lastDeliveredSeq s),
                                     sa_resyncCount := sa_resyncCount s + 1\<rparr>;
                               watermark = (case map_read (sa_lastSnapshot s) key of None \<Rightarrow> 0 | Some entry \<Rightarrow> se_Seq entry)
                           in Some (writeJSON P (ack_frame ''resync'' (cmd_RequestID cmd) key watermark
                                (int_read (sa_snapshotSeq s) key)) s)))))"

definition handleInboundText :: "ports \<Rightarrow> int \<Rightarrow> string \<Rightarrow> SessionActor \<Rightarrow> SessionActor option" where
  "handleInboundText P now text s =
     (case pt_command P text of
        (cmd, Some err) \<Rightarrow>
          Some (writeProblem P (cmd_Op cmd) (cmd_RequestID cmd) (Wrap err ValidationFailed ''invalid JSON payload'') s)
      | (cmd, None) \<Rightarrow>
          let op = ToLower (TrimSpace (cmd_Op cmd));
              op = (if op = '''' then ToLower (TrimSpace (cmd_Type cmd)) else op) in
          if op = ''hello'' then Some (handleClientHello P now cmd s)
          else if op = ''subscribe'' then handleSubscribe P now cmd s
          else if op = ''unsubscribe'' then Some (handleUnsubscribe P cmd s)
          else if op = ''ping'' then Some (handlePing P now cmd s)
          else if op = ''resync'' then handleResync P now cmd s
          else if op = ''getlast'' then Some (handleGetLast P cmd s)
          else if op = ''getrange'' then Some (handleGetRange P now cmd s)
          else Some (writeProblem P op (cmd_RequestID cmd) (Newf ValidationFailed ''unsupported op %q'') s))"

section \<open>The actor\<close>

definition attachConn :: "ports \<Rightarrow> int \<Rightarrow> bool \<Rightarrow> SessionActor \<Rightarrow> SessionActor" where
  "attachConn P now conn s =
     (if \<not> conn \<or> sa_closed s then s
      else if sa_attached s then s
      else
        let s = (if \<not> sc_hasConn (sa_cfg s) then s\<lparr>sa_cfg := (sa_cfg s)\<lparr>sc_hasConn := True\<rparr>\<rparr> else s)
        in (emitHello P now s)\<lparr>sa_attached := True\<rparr>)"

definition onStarted :: "ports \<Rightarrow> int \<Rightarrow> SessionActor \<Rightarrow> SessionActor" where
  "onStarted P now s =
     (let s = send_router (RegisterSession (ses_id (sa_session s)) (Some (sa_self s))) (s\<lparr>sa_started := True\<rparr>)
      in attachConn P now (sc_hasConn (sa_cfg s)) s)"

definition handleKeepaliveTick :: "ports \<Rightarrow> SessionActor \<Rightarrow> SessionActor" where
  "handleKeepaliveTick P s =
     (if sa_closed s \<or> \<not> sc_hasConn (sa_cfg s) then s
      else case conn_write P PingFrame s of
        (s, None) \<Rightarrow> s
      | (s, Some err) \<Rightarrow> s\<lparr>sa_out := sa_out s @ [ToSelfDisconnected]\<rparr>)"

definition saturatingUint64ToInt64 :: "64 word \<Rightarrow> int" where
  "saturatingUint64ToInt64 v = (if uint v > MaxInt64 then MaxInt64 else uint v)"

definition handleMetricsTick :: "ports \<Rightarrow> SessionActor \<Rightarrow> SessionActor" where
  "handleMetricsTick P s =
     (if sa_closed s \<or> \<not> sc_hasConn (sa_cfg s) then s
      else
        let (serializeErrors, resyncTotal) = pt_terminal P;
            (bpLevel, bpAction) = computeBackpressureLevel s;
            frame = MetricsFrame
              \<lparr>mp_WSDroppedTotal = sa_dropCount s, mp_WSQueueLen = dr_Len (sa_outbound s),
               mp_WSLagMs = max (sa_lastLagMs s) 0, mp_SerializeErrorsTotal = saturatingUint64ToInt64 serializeErrors,
               mp_ResyncTotal = saturatingUint64ToInt64 resyncTotal, mp_ResyncCount = sa_resyncCount s,
               mp_ActiveSubscriptions = length (ses_Subscriptions (sa_session s)),
               mp_MessagesOutTotal = max (sa_messagesOut s) 0, mp_BackpressureLevel = bpLevel,
               mp_RecommendedAction = bpAction, mp_QueueCapacity = el_OutboundQueueSize (sa_limits s),
               mp_QueueHighWatermark = sa_queueHighWatermark s,
               mp_SubjectCount = (case sa_lastDeliveredSeq s of None \<Rightarrow> 0 | Some m \<Rightarrow> length m)\<rparr>
        in writeJSON P frame (s\<lparr>sa_queueHighWatermark := 0\<rparr>))"

datatype session_msg =
    SessionStarted | SessionStopped | AttachConn | InboundText string | KeepaliveTick | MetricsTick
  | GetRangeRequest string string getRangeParams | Disconnected | Delivery DeliveryEvent | FlushOutbound

fun session_handle :: "ports \<Rightarrow> int \<Rightarrow> session_msg \<Rightarrow> SessionActor \<Rightarrow> SessionActor option" where
  "session_handle P now SessionStarted s = Some (onStarted P now s)"
| "session_handle P now SessionStopped s = Some (closeSession s)"
| "session_handle P now AttachConn s = Some (attachConn P now True s)"
| "session_handle P now (InboundText text) s = handleInboundText P now text s"
| "session_handle P now KeepaliveTick s = Some (handleKeepaliveTick P s)"
| "session_handle P now MetricsTick s = Some (handleMetricsTick P s)"
| "session_handle P now (GetRangeRequest requestID subject params) s =
     Some (handleGetRangeRequest P now requestID subject params s)"
| "session_handle P now Disconnected s = Some (closeSession s)"
| "session_handle P now (Delivery evt) s = Some (enqueueDelivery P evt s)"
| "session_handle P now FlushOutbound s = flushOutbound P now s"

definition session_Receive :: "ports \<Rightarrow> int \<Rightarrow> session_msg \<Rightarrow> SessionActor \<Rightarrow> SessionActor option" where
  "session_Receive P now msg s = session_handle P now msg (session_ensureDefaults s)"

end
