(* ===== verification/Session_Examples.thy ===== *)
theory Session_Examples
  imports Session_Actor
begin

text \<open>
  Concrete sessions for the witnesses of the properties: a configuration with a small queue, a connection
  that takes every frame until it is closed, codecs that accept everything, and trades of one instrument.
\<close>

definition demo_cfg :: "string \<Rightarrow> int \<Rightarrow> int \<Rightarrow> SessionConfig" where
  "demo_cfg policy queueSize maxFrameBytes =
     \<lparr>sc_hasRouter = True, sc_hasConn = True, sc_connCompresses = False, sc_ServerInstanceID = ''i'',
      sc_OutboundQueueSize = queueSize, sc_BackpressurePolicy = policy, sc_BackpressurePriorities = [],
      sc_PreferProto = False,
      sc_RateLimit = \<lparr>rl_Enabled = False, rl_MaxPerSecond = 0, rl_BurstCapacity = 0\<rparr>,
      sc_SlowClientDropThreshold = 0, sc_MaxSubscriptions = 2, sc_MaxSignalSubscriptions = 0,
      sc_MaxSymbolsPerConnection = 0, sc_MaxFrameBytes = maxFrameBytes, sc_KeepaliveInterval = 0,
      sc_MetricsCadence = 0, sc_hasSnapshotWireCache = False, sc_CompressionEnabled = False,
      sc_RequireClientHello = False\<rparr>"

definition demo_session :: "string \<Rightarrow> int \<Rightarrow> int \<Rightarrow> SessionActor" where
  "demo_session policy queueSize maxFrameBytes =
     NewSessionActor (demo_cfg policy queueSize maxFrameBytes) ''s'' ''p'' 0 (NewSnapshotWireCache 0 0)"

definition demo_event :: "string \<Rightarrow> int \<Rightarrow> DeliveryEvent" where
  "demo_event eventType seq =
     \<lparr>de_Subject = trade_subject ''BTC'', de_Env = (trade ''BTC'' ''SPOT'' seq)\<lparr>env_Type := eventType\<rparr>\<rparr>"

definition demo_command :: "string \<Rightarrow> string \<Rightarrow> clientCommand" where
  "demo_command op subject =
     \<lparr>cmd_Type = '''', cmd_Op = op, cmd_Subject = subject, cmd_StreamID = '''', cmd_RequestID = ''r'', cmd_Venue = '''',
      cmd_Symbol = '''', cmd_Channel = '''', cmd_Aggregation = '''', cmd_LastSeq = 0, cmd_TsClient = 0, cmd_Params = '''',
      cmd_RequestedFeatures = (if op = ''hello'' then [subject] else [])\<rparr>"

text \<open>A command is written as its operation and its subject (of a greeting, the feature) with a blank between them; a frame has a hundred bytes, a batch more.\<close>

definition demo_size :: "ws_frame \<Rightarrow> string + int" where
  "demo_size f = (case f of BatchFrame b \<Rightarrow> Inr (50 + 100 * int (bf_Count b)) | _ \<Rightarrow> Inr 100)"

definition demo_ports :: ports where
  "demo_ports =
     \<lparr>pt_accepts = (\<lambda>closed n. \<not> closed), pt_size = demo_size, pt_deflate = (\<lambda>_. 0), pt_valid = (\<lambda>_. True),
      pt_transcode = (\<lambda>env. Inr (env_Payload env)), pt_protoRollout = (\<lambda>_. False),
      pt_marshalProto = (\<lambda>env. Inr (env_Payload env)), pt_signal = (\<lambda>_. Inl ''no signal''), pt_hot = None,
      pt_snapshotMeta = (\<lambda>_. None), pt_rangeStore = None, pt_params = (\<lambda>_. Inl ''no params''),
      pt_command = (\<lambda>text. case SplitN CHR '' '' 2 text of [op, subject] \<Rightarrow> (demo_command op subject, None)
        | _ \<Rightarrow> (demo_command '''' '''', Some ''bad'')),
      pt_terminal = (0, 0)\<rparr>"

text \<open>Two trades and a book delta fill the queue; a trade then takes the place of the delta.\<close>

definition demo_full :: SessionActor where
  "demo_full =
     fold (enqueueDelivery demo_ports)
       [demo_event ''marketdata.trade'' 1, demo_event ''marketdata.bookdelta'' 2, demo_event ''marketdata.trade'' 3]
       (demo_session ''priority_drop'' 3 0)"

text \<open>A sequence of messages, each with the time at which it is handled.\<close>

fun session_steps :: "ports \<Rightarrow> (int \<times> session_msg) list \<Rightarrow> SessionActor \<Rightarrow> SessionActor option" where
  "session_steps P [] s = Some s"
| "session_steps P ((now, msg) # msgs) s =
     (case session_Receive P now msg s of None \<Rightarrow> None | Some s \<Rightarrow> session_steps P msgs s)"

text \<open>The default thresholds, ready to be compared with.\<close>

lemma defaultBackpressureStrategy_code [code]:
  "defaultBackpressureStrategy =
     \<lparr>bp_elevatedRatio = FFin False (1 / 2), bp_highRatio = FFin False (3 / 4),
      bp_criticalRatio = FFin False (8556839292003942 / 9007199254740992),
      bp_sampleTopN = 5, bp_sampleMaxUnique = 64, bp_sampleFlushEvery = 64\<rparr>"
proof -
  have "round_mag (1 / 2) = 1 / 2" "round_mag (3 / 4) = 3 / 4"
    "round_mag (95 / 100) = 8556839292003942 / 9007199254740992"
    using round_mag_eq [of "-1" "1 / 2" 4503599627370496] round_mag_eq [of "-1" "3 / 4" 6755399441055744]
      round_mag_eq [of "-1" "95 / 100" 8556839292003942]
    by (simp_all add: pow2_def)
  then show ?thesis by (simp add: defaultBackpressureStrategy_def f64_of_rat_def f64_round_fin)
qed

end
