(* ===== verification/Session_Queue.thy ===== *)
theory Session_Queue
  imports Session_Examples
begin

text \<open>
  The outbound queue of a session and its flushing: what the drop policies keep, that a queued event is
  never left without a flush on its way, and the chain of sequence numbers that the client sees.
\<close>

section \<open>Specification\<close>

abbreviation queue :: "SessionActor \<Rightarrow> DeliveryEvent list" where
  "queue s \<equiv> dr_view (sa_outbound s)"

text \<open>The flush messages that the session has sent to itself.\<close>

definition flushes :: "SessionActor \<Rightarrow> nat" where
  "flushes s = length (filter (\<lambda>m. m = ToSelfFlush) (sa_out s))"

text \<open>
  What the client receives for one subject, in the order of the wire: the number of each event and, where
  the frame carries it, the number that it gives for the event before. Signal frames carry none; the
  items of a batch carry only its difference to a number that the frame does not have.
\<close>

fun delivery_of :: "string \<Rightarrow> ws_frame \<Rightarrow> (int \<times> int option) list" where
  "delivery_of key (EventFrame e) = (if ef_Subject e = key then [(ef_Seq e, Some (ef_PrevSeq e))] else [])"
| "delivery_of key (SignalFrame g) = (if gf_Subject g = key then [(gf_Seq g, None)] else [])"
| "delivery_of key (BatchFrame b) =
     (if bf_StreamID b = key then map (\<lambda>i. (bf_BaseSeq b + bi_SeqDelta i, None)) (bf_Events b) else [])"
| "delivery_of key _ = []"

definition deliveries :: "string \<Rightarrow> ws_frame list \<Rightarrow> (int \<times> int option) list" where
  "deliveries key frames = concat (map (delivery_of key) frames)"

text \<open>What a frame that is not an event leaves alone, with everything that it can trigger.\<close>

definition quiet :: "SessionActor \<Rightarrow> SessionActor \<Rightarrow> bool" where
  "quiet s s' \<longleftrightarrow>
     sa_cfg s' = sa_cfg s \<and> sa_session s' = sa_session s \<and> sa_limits s' = sa_limits s \<and>
     sa_features s' = sa_features s \<and> sa_outbound s' = sa_outbound s \<and> sa_flushing s' = sa_flushing s \<and>
     sa_policy s' = sa_policy s \<and> sa_priorities s' = sa_priorities s \<and> (sa_closed s \<longrightarrow> sa_closed s') \<and>
     flushes s' = flushes s \<and> (\<forall>key. deliveries key (sa_wire s') = deliveries key (sa_wire s)) \<and>
     (sa_lastDeliveredSeq s' = sa_lastDeliveredSeq s \<or> sa_closed s' \<and> sa_lastDeliveredSeq s' = None)"

text \<open>What the writing of events leaves alone, the queue apart.\<close>

definition steady :: "SessionActor \<Rightarrow> SessionActor \<Rightarrow> bool" where
  "steady s s' \<longleftrightarrow>
     sa_cfg s' = sa_cfg s \<and> sa_session s' = sa_session s \<and> sa_limits s' = sa_limits s \<and>
     sa_features s' = sa_features s \<and> sa_flushing s' = sa_flushing s \<and> sa_policy s' = sa_policy s \<and>
     sa_priorities s' = sa_priorities s \<and> (sa_closed s \<longrightarrow> sa_closed s') \<and> flushes s' = flushes s"

text \<open>Steady steps that also leave the queue alone.\<close>

definition stay :: "SessionActor \<Rightarrow> SessionActor \<Rightarrow> bool" where
  "stay s s' \<longleftrightarrow> steady s s' \<and> sa_outbound s' = sa_outbound s"

text \<open>
  A sequence of deliveries in which every number given for the event before is that of the delivery
  before, or zero; and the sessions whose deliveries are such sequences.
\<close>

fun linked_from :: "int \<Rightarrow> (int \<times> int option) list \<Rightarrow> bool" where
  "linked_from p [] = True"
| "linked_from p ((seq, prev) # ds) = ((prev = None \<or> prev = Some 0 \<or> prev = Some p) \<and> linked_from seq ds)"

definition last_seq :: "int \<Rightarrow> (int \<times> int option) list \<Rightarrow> int" where
  "last_seq p ds = (if ds = [] then p else fst (last ds))"

definition chained :: "SessionActor \<Rightarrow> bool" where
  "chained s \<longleftrightarrow> (\<forall>key. linked_from 0 (deliveries key (sa_wire s)) \<and>
     int_read (sa_lastDeliveredSeq s) key \<in> {0, last_seq 0 (deliveries key (sa_wire s))})"

text \<open>What a delivery leaves alone, and the flush that it asks for.\<close>

definition held :: "SessionActor \<Rightarrow> SessionActor \<Rightarrow> bool" where
  "held s s' \<longleftrightarrow>
     sa_cfg s' = sa_cfg s \<and> sa_session s' = sa_session s \<and> sa_limits s' = sa_limits s \<and>
     sa_features s' = sa_features s \<and> sa_policy s' = sa_policy s \<and> sa_priorities s' = sa_priorities s \<and>
     (sa_closed s \<longrightarrow> sa_closed s') \<and> (chained s \<longrightarrow> chained s') \<and>
     (\<forall>key. deliveries key (sa_wire s') = deliveries key (sa_wire s))"

definition awake :: "SessionActor \<Rightarrow> SessionActor \<Rightarrow> bool" where
  "awake s s' \<longleftrightarrow> sa_flushing s' \<and> flushes s' = flushes s + (if sa_flushing s then 0 else 1)"

text \<open>
  The drop policies as functions on the queue: the event that the priority policy gives up for a new one
  is the oldest of those with the lowest score, when that score is below the one of the new event; and
  the queue after a delivery.
\<close>

definition score_of :: "SessionActor \<Rightarrow> DeliveryEvent \<Rightarrow> int" where
  "score_of s e = dropScore (env_Type (de_Env e)) s"

definition drop_victim :: "SessionActor \<Rightarrow> DeliveryEvent \<Rightarrow> nat option" where
  "drop_victim s evt =
     (if \<exists>e \<in> set (queue s). score_of s e < score_of s evt
      then first_index (\<lambda>e. score_of s e = Min (score_of s ` set (queue s))) (queue s)
      else None)"

definition queue_after :: "SessionActor \<Rightarrow> DeliveryEvent \<Rightarrow> DeliveryEvent list" where
  "queue_after s evt =
     (if length (queue s) < dr_cap (sa_outbound s) then queue s @ [evt]
      else if sa_policy s = ''drop_oldest'' then tl (queue s) @ [evt]
      else if sa_policy s = ''priority_drop'' then
        (case drop_victim s evt of None \<Rightarrow> queue s | Some i \<Rightarrow> remove_nth i (queue s) @ [evt])
      else queue s)"

text \<open>The queue after a delivery, on every branch that leaves the session open.\<close>

definition enqueued :: "SessionActor \<Rightarrow> DeliveryEvent \<Rightarrow> SessionActor \<Rightarrow> bool" where
  "enqueued s evt s' \<longleftrightarrow>
     held s s' \<and> dr_inv (sa_outbound s') \<and> dr_cap (sa_outbound s') = dr_cap (sa_outbound s) \<and>
     (sa_closed s' \<or>
      queue s' = queue_after s evt \<and>
      (awake s s' \<or> queue s' = queue s \<and> sa_flushing s' = sa_flushing s \<and> flushes s' = flushes s))"

section \<open>Lemmas: what a write leaves alone\<close>

lemma deliveries_append [simp]: "deliveries key (xs @ ys) = deliveries key xs @ deliveries key ys"
  by (simp add: deliveries_def)

lemma deliveries_Nil [simp]: "deliveries key [] = []"
  by (simp add: deliveries_def)

lemma deliveries_single [simp]: "deliveries key [f] = delivery_of key f"
  by (simp add: deliveries_def)

lemma quiet_refl [simp]: "quiet s s"
  by (simp add: quiet_def)

lemma quiet_trans: "quiet t u \<Longrightarrow> quiet s t \<Longrightarrow> quiet s u"
  unfolding quiet_def by (elim conjE) (intro conjI; simp; auto)

lemma quiet_fields:
  "quiet s (s\<lparr>sa_snapshotSeq := a\<rparr>)" "quiet s (s\<lparr>sa_wireCache := b\<rparr>)"
  "quiet s (s\<lparr>sa_deferredSnapshotSubjects := c\<rparr>)" "quiet s (s\<lparr>sa_lastSnapshot := d\<rparr>)"
  "quiet s (s\<lparr>sa_dropCount := n\<rparr>)" "quiet s (s\<lparr>sa_bpDropSamples := l\<rparr>)" "quiet s (s\<lparr>sa_bpDropSampleDrops := n\<rparr>)"
  "quiet s (s\<lparr>sa_bpDropSampleWindow := n\<rparr>)" "quiet s (s\<lparr>sa_connClosed := f\<rparr>)" "quiet s (s\<lparr>sa_closed := True\<rparr>)"
  by (simp_all add: quiet_def flushes_def)

lemma quiet_None: "sa_closed s \<Longrightarrow> quiet s (s\<lparr>sa_lastDeliveredSeq := None\<rparr>)"
  by (simp add: quiet_def flushes_def)

lemma quiet_router: "quiet s (s\<lparr>sa_out := sa_out s @ map (\<lambda>x. ToRouter (f x)) xs @ [ToRouter m]\<rparr>)"
proof -
  have "filter (\<lambda>m. m = ToSelfFlush) (map (\<lambda>x. ToRouter (f x)) xs) = []" by (induction xs) auto
  then show ?thesis by (simp add: quiet_def flushes_def)
qed

lemmas quiet_field_steps = quiet_fields [THEN quiet_trans] quiet_router [THEN quiet_trans]

lemma quiet_samples: "quiet s (flushBackpressureDropSamples force s)"
  unfolding flushBackpressureDropSamples_def Let_def by (auto intro!: quiet_field_steps)

lemma quiet_sample: "quiet s (recordBackpressureDropSample reason channel priority s)"
  unfolding recordBackpressureDropSample_def Let_def
  by (auto split: option.split intro!: quiet_field_steps quiet_samples [THEN quiet_trans])

lemma closed_samples [simp]: "sa_closed (flushBackpressureDropSamples force s) = sa_closed s"
  by (simp add: flushBackpressureDropSamples_def Let_def)

lemma closed_unregister [simp]: "sa_closed (unregister_on_close s) = sa_closed s"
  by (simp add: unregister_on_close_def)

lemma quiet_unregister: "quiet s (unregister_on_close s)"
  unfolding unregister_on_close_def by (auto intro!: quiet_field_steps)

lemma quiet_close: "quiet s (closeSession s)"
  unfolding closeSession_def Let_def
  by (auto intro!: quiet_field_steps quiet_None [THEN quiet_trans] quiet_unregister [THEN quiet_trans]
      quiet_samples [THEN quiet_trans])

lemma closed_close [simp]: "sa_closed (closeSession s)"
  by (simp add: closeSession_def Let_def)

lemma quiet_write: "(\<forall>key. delivery_of key f = []) \<Longrightarrow> quiet s (fst (conn_write P f s))"
  by (simp add: quiet_def flushes_def conn_write_def Let_def)

lemma quiet_WriteJSON: "(\<forall>key. delivery_of key f = []) \<Longrightarrow> quiet s (fst (conn_WriteJSON P f s))"
  by (simp add: conn_WriteJSON_def quiet_write split: sum.split)

lemma quiet_raw: "(\<forall>key. delivery_of key f = []) \<Longrightarrow> quiet s (fst (writeRawMessage P f s))"
  by (simp add: writeRawMessage_def quiet_write)

lemma quiet_limits: "(\<forall>key. delivery_of key f = []) \<Longrightarrow> quiet s (fst (writeJSONRawWithLimits P f n s))"
  by (simp add: writeJSONRawWithLimits_def quiet_raw split_beta)

lemma quiet_direct: "(\<forall>key. delivery_of key f = []) \<Longrightarrow> quiet s (fst (writeJSONDirect P f s))"
  by (simp add: writeJSONDirect_def quiet_raw quiet_WriteJSON split_beta split: sum.split)

lemma quiet_json: "(\<forall>key. delivery_of key f = []) \<Longrightarrow> quiet s (writeJSON P f s)"
  using quiet_direct [of f s P] quiet_close [THEN quiet_trans]
  by (auto simp: writeJSON_def split_beta split: option.split)

lemma quiet_problem: "quiet s (writeProblem P op r p s)"
  by (simp add: writeProblem_def split_beta quiet_json)

lemmas quiet_steps = quiet_field_steps quiet_samples [THEN quiet_trans] quiet_sample [THEN quiet_trans]
  quiet_close [THEN quiet_trans] quiet_problem [THEN quiet_trans]

lemma quiet_drop: "quiet s (fst (onDrop P reason evt s))"
proof -
  define t where "t = (let reason = normalizeDropReason reason in
      if reason = ''queue_full'' \<or> reason = ''priority_drop_self'' then
        writeProblem P ''delivery'' ''''
          (withWSLimitProblemDetails (New Unavailable ''outbound queue limit reached'')
             wsLimitTypeOutboundQueue (actionHintForDrop reason)) s
      else if reason = ''frame_too_large'' then
        writeProblem P ''delivery'' ''''
          (withWSLimitProblemDetails (Newf ValidationFailed ''event exceeds max_frame_bytes (%d)'')
             wsLimitTypeMaxFrameBytes (actionHintForDrop reason)) s
      else s)"
  have t: "quiet s t" by (simp add: t_def Let_def quiet_problem)
  show ?thesis
    unfolding onDrop_def Let_def t_def [unfolded Let_def, symmetric] fst_conv if_distrib [of fst]
    by (auto intro!: quiet_steps t)
qed

lemmas quiet_more = quiet_steps quiet_drop [THEN quiet_trans]
  quiet_json [THEN quiet_trans] quiet_limits [THEN quiet_trans]

lemma quiet_bump: "bump_snapshotSeq key s = Some s' \<Longrightarrow> quiet s s'"
  by (auto simp: bump_snapshotSeq_def quiet_fields split: option.splits)

lemma quiet_fits: "(\<forall>key. delivery_of key f = []) \<Longrightarrow> quiet s (fst (write_if_fits P f s))"
  by (auto simp: write_if_fits_def intro!: quiet_more)

lemma quiet_uncached: "emit_hot_uncached P now subject payload s = Some r \<Longrightarrow> quiet s (fst r)"
  by (auto simp: emit_hot_uncached_def dest!: quiet_bump split: option.splits
      intro: quiet_fits [THEN quiet_trans])

lemma quiet_build: "quiet s (fst (build_hot_cached P now subject payload s))"
  by (auto simp: build_hot_cached_def Let_def split_beta split: sum.split option.split intro!: quiet_more)

lemma quiet_cached: "quiet s (fst (emit_hot_cached P now subject payload s))"
  by (auto simp: emit_hot_cached_def Let_def split_beta split: option.split
      intro!: quiet_more quiet_build [THEN quiet_trans])

lemma quiet_last: "emit_last P now subject s = Some r \<Longrightarrow> quiet s (fst r)"
  by (auto simp: emit_last_def Let_def dest!: quiet_bump split: option.splits if_splits
      intro: quiet_fits [THEN quiet_trans])

lemma quiet_emit: "emitSnapshot P now subject s = Some r \<Longrightarrow> quiet s (fst r)"
  by (auto simp: emitSnapshot_def Let_def quiet_cached dest: quiet_uncached quiet_last split: if_splits)

lemma quiet_retry: "retry_deferred P now subject s = Some s' \<Longrightarrow> quiet s s'"
  by (auto simp: retry_deferred_def emitHotSnapshot_def dest!: quiet_emit split: option.splits if_splits prod.splits
      intro: quiet_fields [THEN quiet_trans])

lemma quiet_record_payload: "record_payload P key entry s = Some s' \<Longrightarrow> quiet s s'"
  by (auto simp: record_payload_def quiet_fields split: if_splits option.splits)

section \<open>Lemmas: writing events\<close>

lemma steady_refl [simp]: "steady s s"
  by (simp add: steady_def)

lemma steady_trans: "steady t u \<Longrightarrow> steady s t \<Longrightarrow> steady s u"
  unfolding steady_def by auto

lemma quiet_steady: "quiet s s' \<Longrightarrow> steady s s' \<and> sa_outbound s' = sa_outbound s"
  unfolding steady_def quiet_def by auto

lemma linked_append: "linked_from p (xs @ ys) \<longleftrightarrow> linked_from p xs \<and> linked_from (last_seq p xs) ys"
  by (induction p xs rule: linked_from.induct) (auto simp: last_seq_def)

lemma last_seq_append [simp]: "last_seq p (xs @ ys) = last_seq (last_seq p xs) ys"
  by (simp add: last_seq_def)

lemma int_read_simps [simp]:
  "int_read None k = 0" "int_read (Some (AList.update k v m)) k' = (if k' = k then v else int_read (Some m) k')"
  "int_read (map_delete k n) k' = (if k' = k then 0 else int_read n k')"
  by (simp_all add: int_read_def map_read_def map_delete_def update_conv' delete_conv' split: option.split)

lemma quiet_chained: "quiet s s' \<Longrightarrow> chained s \<Longrightarrow> chained s'"
  unfolding quiet_def chained_def by (elim conjE) (metis insertCI int_read_simps(1))

text \<open>A write with a connection adds its frame when it succeeds and nothing when it fails.\<close>

lemma raw_shape:
  assumes "writeRawMessage P f s = (s', e)" "sc_hasConn (sa_cfg s)"
  shows "\<exists>n. s' = s\<lparr>sa_writes := n, sa_wire := sa_wire s @ (if e = None then [f] else [])\<rparr>"
  using assms by (auto simp: writeRawMessage_def conn_write_def Let_def split: if_splits)

lemma WriteJSON_shape:
  assumes "conn_WriteJSON P f s = (s', e)"
  shows "\<exists>n. s' = s\<lparr>sa_writes := n, sa_wire := sa_wire s @ (if e = None then [f] else [])\<rparr>"
  using assms
  by (auto simp: conn_WriteJSON_def conn_write_def Let_def split: if_splits sum.splits)
    (metis SessionActor.surjective SessionActor.update_convs(30))

lemma direct_shape:
  assumes "writeJSONDirect P f s = (s', e)" "sc_hasConn (sa_cfg s)"
  shows "\<exists>n. s' = s\<lparr>sa_writes := n, sa_wire := sa_wire s @ (if e = None then [f] else [])\<rparr>"
proof (cases "HasCompression (sa_features s) \<and> (\<exists>err. pt_size P f = Inl err)")
  case True
  then have "s' = s" "e \<noteq> None" using assms by (auto simp: writeJSONDirect_def)
  then have "s' = s\<lparr>sa_writes := sa_writes s, sa_wire := sa_wire s @ (if e = None then [f] else [])\<rparr>" by simp
  then show ?thesis by blast
next
  case False
  then have "writeRawMessage P f s = (s', e) \<or> conn_WriteJSON P f s = (s', e)"
    using assms by (auto simp: writeJSONDirect_def split_beta split: sum.splits if_splits)
  then show ?thesis using raw_shape [OF _ assms(2)] WriteJSON_shape by blast
qed

lemma stay_refl [simp]: "stay s s"
  by (simp add: stay_def)

lemma stay_trans: "stay t u \<Longrightarrow> stay s t \<Longrightarrow> stay s u"
  unfolding stay_def using steady_trans by auto

lemma quiet_stay: "quiet s s' \<Longrightarrow> stay s s'"
  by (simp add: stay_def quiet_steady)

lemma stay_shape: "stay s (s\<lparr>sa_writes := n, sa_wire := w\<rparr>)"
  by (simp add: stay_def steady_def flushes_def)

lemma write_noconn: "\<not> sc_hasConn (sa_cfg s) \<Longrightarrow> writeRawMessage P f s = (s, None) \<and> writeJSONDirect P f s = (s, None)"
  by (simp add: writeRawMessage_def writeJSONDirect_def)

lemma stay_writes:
  assumes "writeRawMessage P f s = (s', e) \<or> writeJSONDirect P f s = (s', e)"
  shows "stay s s'"
proof (cases "sc_hasConn (sa_cfg s)")
  case True
  then obtain n where "s' = s\<lparr>sa_writes := n, sa_wire := sa_wire s @ (if e = None then [f] else [])\<rparr>"
    using assms raw_shape direct_shape by metis
  then show ?thesis by (simp only: stay_shape)
next
  case False
  then have "s' = s" using assms write_noconn by (metis Pair_inject)
  then show ?thesis by (simp only: stay_refl)
qed

lemmas stay_raw = stay_writes [OF disjI1] and stay_direct = stay_writes [OF disjI2]

lemma stay_delivered: "record_delivered key seq lag s = Some s' \<Longrightarrow> stay s s'"
  by (auto simp: record_delivered_def stay_def steady_def flushes_def split: option.splits)

text \<open>The cases of writing one JSON frame.\<close>

lemma json_frame_cases:
  assumes "write_json_frame P frame evt entry err1 err2 s = Some (s', e)"
  obtains (same) "s' = s"
  | (drop) "s' = fst (onDrop P ''frame_too_large'' (Some evt) s)"
  | (fail) err where "writeRawMessage P frame s = (s', Some err) \<or> writeJSONDirect P frame s = (s', Some err)"
  | (sent) s1 s2 where "writeRawMessage P frame s = (s1, None) \<or> writeJSONDirect P frame s = (s1, None)"
      "record_delivered (subject_String (de_Subject evt)) (se_Seq entry)
         (se_TsServer entry - env_TsIngest (de_Env evt)) s1 = Some s2"
      "record_payload P (subject_String (de_Subject evt)) entry s2 = Some s'"
proof (cases "pt_size P frame")
  case (Inl err)
  then show thesis using assms same by (auto simp: write_json_frame_def)
next
  case (Inr n)
  obtain c w where p: "planWireCompression P frame n s = (c, w)" by fastforce
  show thesis
  proof (cases "too_large w s")
    case True
    then show thesis using assms Inr p drop by (auto simp: write_json_frame_def)
  next
    case False
    obtain s1 e1 where w: "(if c then writeRawMessage P frame s else writeJSONDirect P frame s) = (s1, e1)" by fastforce
    then have w': "writeRawMessage P frame s = (s1, e1) \<or> writeJSONDirect P frame s = (s1, e1)" by (auto split: if_splits)
    show thesis
      using assms Inr p False w w' fail sent
      by (cases e1) (auto simp: write_json_frame_def Let_def split: option.splits)
  qed
qed

lemma stay_json_frame:
  assumes "write_json_frame P frame evt entry err1 err2 s = Some (s', e)"
  shows "stay s s'"
  using assms
proof (cases rule: json_frame_cases)
  case drop
  then show ?thesis using quiet_drop quiet_stay by metis
next
  case (fail err)
  then show ?thesis using stay_raw stay_direct by metis
next
  case (sent s1 s2)
  then have "stay s s1" "stay s1 s2" "stay s2 s'"
    using stay_raw stay_direct stay_delivered quiet_record_payload quiet_stay by metis+
  then show ?thesis using stay_trans by metis
qed simp

lemma stay_proto:
  assumes "write_proto_event P ts evt s = Some (s', e)"
  shows "stay s s'"
proof (cases "pt_marshalProto P (proto_envelope ts (de_Subject evt) (subject_channel (de_Subject evt))
    (int_read (sa_lastDeliveredSeq s) (subject_String (de_Subject evt))) (de_Env evt) s)")
  case (Inl p)
  then show ?thesis using assms by (simp add: write_proto_event_def)
next
  case (Inr raw)
  obtain c w where p: "planWireCompression P (ProtoFrame raw) (int (length raw)) s = (c, w)" by fastforce
  obtain s1 e1 where w: "writeRawMessage P (ProtoFrame raw) s = (s1, e1)" by fastforce
  show ?thesis
    using assms Inr p w stay_raw [OF w] quiet_stay [OF quiet_drop] stay_trans [OF stay_delivered]
    by (cases e1) (auto simp: write_proto_event_def Let_def split: if_splits option.splits)
qed

lemma stay_event:
  assumes "writeDeliveryEvent P now evt s = Some (s', e)"
  shows "stay s s'"
proof -
  obtain s1 where r: "retry_deferred P now (de_Subject evt) s = Some s1"
    using assms by (auto simp: writeDeliveryEvent_def Let_def split: option.splits)
  have "stay s1 s'"
    using assms r unfolding writeDeliveryEvent_def Let_def
    by (auto split: sum.splits if_splits dest: stay_json_frame stay_proto)
  then show ?thesis using quiet_stay [OF quiet_retry [OF r]] stay_trans by metis
qed

section \<open>Lemmas: the drop policies\<close>

lemma first_min_Cons:
  fixes f :: "'a \<Rightarrow> int"
  shows "first_index (\<lambda>e. f e = Min (f ` set (x # xs))) (x # xs) =
    (if \<exists>e \<in> set xs. f e < f x then map_option Suc (first_index (\<lambda>e. f e = Min (f ` set xs)) xs) else Some 0)"
proof (cases "\<exists>e \<in> set xs. f e < f x")
  case True
  then have "xs \<noteq> []" by auto
  then have "Min (f ` set xs) < f x" using True by (simp add: Min_less_iff)
  then have "Min (f ` set (x # xs)) = Min (f ` set xs)" using \<open>xs \<noteq> []\<close>
    by (simp add: min.absorb2 less_imp_le)
  then show ?thesis using True \<open>Min (f ` set xs) < f x\<close> by simp
next
  case False
  then have "Min (f ` set (x # xs)) = f x" by (intro Min_eqI) (auto simp: not_less)
  then show ?thesis using False by simp
qed

lemma lowest_loop_scan:
  assumes "i + n = dr_count (sa_outbound s)"
  shows "lowest_loop s i n low idx =
    (if \<exists>e \<in> set (drop i (queue s)). score_of s e < low
     then map_option ((+) i) (first_index (\<lambda>e. score_of s e = Min (score_of s ` set (drop i (queue s)))) (drop i (queue s)))
     else idx)"
  using assms
proof (induction n arbitrary: i low idx)
  case 0
  then show ?case by simp
next
  case (Suc n)
  have i: "i < dr_count (sa_outbound s)" using Suc.prems by simp
  let ?rest = "drop (Suc i) (queue s)" and ?x = "queue s ! i"
  have d: "drop i (queue s) = ?x # ?rest" using i by (simp add: Cons_nth_drop_Suc)
  have x: "dropScore (env_Type (de_Env (dr_At i (sa_outbound s)))) s = score_of s ?x"
    by (simp add: score_of_def dr_at [OF i])
  have IH: "lowest_loop s (Suc i) n low idx =
    (if \<exists>e \<in> set ?rest. score_of s e < low
     then map_option ((+) (Suc i)) (first_index (\<lambda>e. score_of s e = Min (score_of s ` set ?rest)) ?rest) else idx)"
    for low idx using Suc.IH [of "Suc i"] Suc.prems by simp
  have shift: "map_option ((+) i) (map_option Suc v) = map_option ((+) (Suc i)) v" for v :: "nat option"
    by (cases v) simp_all
  show ?case
  proof (cases "score_of s ?x < low")
    case True
    then show ?thesis
      unfolding d lowest_loop.simps Let_def x IH first_min_Cons by (auto simp: shift)
  next
    case False
    moreover have "(\<exists>e \<in> set ?rest. score_of s e < score_of s ?x)" if "\<exists>e \<in> set ?rest. score_of s e < low"
      using that False by force
    ultimately show ?thesis
      unfolding d lowest_loop.simps Let_def x IH first_min_Cons by (auto simp: shift)
  qed
qed

lemma lowest_loop_victim:
  "lowest_loop s 0 (dr_Len (sa_outbound s)) (dropScore (env_Type (de_Env evt)) s) None = drop_victim s evt"
proof -
  have "map_option ((+) 0) v = v" for v :: "nat option" by (cases v) simp_all
  then show ?thesis
    using lowest_loop_scan [of 0 "dr_Len (sa_outbound s)" s "score_of s evt" None]
    by (simp add: dr_Len_def drop_victim_def score_of_def [symmetric])
qed

lemma drop_victim_bound: "drop_victim s evt = Some i \<Longrightarrow> i < length (queue s)"
  by (auto simp: drop_victim_def split: if_splits dest: first_index_Some)

lemma full_iff: "dr_IsFull (sa_outbound s) \<longleftrightarrow> \<not> length (queue s) < dr_cap (sa_outbound s)"
  by (simp add: dr_IsFull_def not_less)

lemma drop_closed: "onDrop P reason evt s = (s', True) \<Longrightarrow> sa_closed s'"
  by (auto simp: onDrop_def Let_def split: if_splits)

lemma held_refl [simp]: "held s s"
  by (simp add: held_def)

lemma held_trans: "held t u \<Longrightarrow> held s t \<Longrightarrow> held s u"
  unfolding held_def by auto

lemma quiet_held: "quiet s s' \<Longrightarrow> held s s'"
  using quiet_chained [of s s'] unfolding held_def quiet_def by (elim conjE) simp

lemma held_outbound: "held s (s\<lparr>sa_outbound := r\<rparr>)"
  by (simp add: held_def chained_def)

lemma request_flush_effect:
  "held s (request_flush s)" "awake s (request_flush s)" "sa_outbound (request_flush s) = sa_outbound s"
  by (simp_all add: request_flush_def held_def awake_def chained_def flushes_def)

lemma push_and_flush_effect:
  assumes "dr_inv (sa_outbound s)" "length (queue s) < dr_cap (sa_outbound s)"
  shows "held s (push_and_flush evt s)" "awake s (push_and_flush evt s)"
    "sa_outbound (push_and_flush evt s) = dr_PushBack evt (sa_outbound s)"
  by (simp_all add: push_and_flush_def Let_def request_flush_def held_def awake_def chained_def flushes_def)

lemma enqueued_kept:
  assumes "dr_inv (sa_outbound s)" "queue_after s evt = queue s" "quiet s s'"
  shows "enqueued s evt s'"
  using assms quiet_held [OF assms(3)] by (simp add: enqueued_def quiet_def)

lemma enqueued_drop_oldest:
  assumes inv: "dr_inv (sa_outbound s)" and full: "dr_IsFull (sa_outbound s)" and pol: "sa_policy s = ''drop_oldest''"
  shows "enqueued s evt (enqueueDelivery P evt s)"
proof -
  let ?t = "s\<lparr>sa_outbound := dr_DropFront zero_event (sa_outbound s)\<rparr>"
  obtain u b where u: "onDrop P ''drop_oldest'' (Some evt) ?t = (u, b)" by fastforce
  have q: "quiet ?t u" using quiet_drop [of ?t P] u by (metis fst_conv)
  then have out: "sa_outbound u = dr_DropFront zero_event (sa_outbound s)" by (simp add: quiet_def)
  have h: "held s u" using quiet_held [OF q] held_outbound held_trans by metis
  have inv': "dr_inv (sa_outbound u)" "dr_cap (sa_outbound u) = dr_cap (sa_outbound s)" "queue u = tl (queue s)"
    using dr_drop [OF inv] out by simp_all
  have room: "length (queue u) < dr_cap (sa_outbound u)"
    using inv inv' by (auto simp: dr_inv_def simp flip: length_views(2))
  have e: "enqueueDelivery P evt s = (if b then u else push_and_flush evt u)"
    using full pol u by (simp add: enqueueDelivery_def)
  show ?thesis
  proof (cases b)
    case True
    then show ?thesis using drop_closed u e h inv' by (simp add: enqueued_def)
  next
    case False
    have "awake s (push_and_flush evt u)"
      using push_and_flush_effect(2) [OF inv'(1) room] q by (simp add: awake_def quiet_def flushes_def)
    moreover have "dr_count (sa_outbound u) < dr_cap (sa_outbound u)" using room unfolding length_views .
    ultimately show ?thesis
      using False e held_trans [OF push_and_flush_effect(1) [OF inv'(1) room] h] dr_push [OF inv'(1), of evt] inv' full pol
      by (simp add: enqueued_def push_and_flush_effect(3) [OF inv'(1) room] queue_after_def dr_IsFull_def)
  qed
qed

lemma enqueued_priority:
  assumes inv: "dr_inv (sa_outbound s)" and full: "dr_IsFull (sa_outbound s)" and pol: "sa_policy s = ''priority_drop''"
  shows "enqueued s evt (enqueueDelivery P evt s)"
proof (cases "drop_victim s evt")
  case None
  then have "enqueueDelivery P evt s = fst (onDrop P ''priority_drop_self'' (Some evt) s)"
    using full pol by (simp add: enqueueDelivery_def priorityDrop_def lowest_loop_victim)
  moreover have "queue_after s evt = queue s" using None full pol by (simp add: queue_after_def dr_IsFull_def)
  ultimately show ?thesis using enqueued_kept [OF inv _ quiet_drop] by simp
next
  case (Some i)
  let ?t = "s\<lparr>sa_outbound := dr_PushBack evt (dr_RemoveAt zero_event i (sa_outbound s))\<rparr>"
  obtain u b where u: "onDrop P ''priority_drop'' (Some evt) ?t = (u, b)" by fastforce
  have q: "quiet ?t u" using quiet_drop [of ?t P] u by (metis fst_conv)
  have h: "held s u" using quiet_held [OF q] held_outbound held_trans by metis
  have i: "i < dr_count (sa_outbound s)" using drop_victim_bound [OF Some] by simp
  have inv': "dr_inv (sa_outbound u)" "dr_cap (sa_outbound u) = dr_cap (sa_outbound s)"
    "queue u = remove_nth i (queue s) @ [evt]"
  proof -
    have "dr_count (dr_RemoveAt zero_event i (sa_outbound s)) < dr_cap (dr_RemoveAt zero_event i (sa_outbound s))"
      using dr_remove [OF inv i, of zero_event] inv i by (auto simp: dr_inv_def)
    then show "dr_inv (sa_outbound u)" "dr_cap (sa_outbound u) = dr_cap (sa_outbound s)"
      "queue u = remove_nth i (queue s) @ [evt]"
      using dr_push [of "dr_RemoveAt zero_event i (sa_outbound s)" evt] dr_remove [OF inv i, of zero_event] q
      by (simp_all add: quiet_def)
  qed
  have e: "enqueueDelivery P evt s = (if b then u else request_flush u)"
    using full pol u Some by (simp add: enqueueDelivery_def priorityDrop_def lowest_loop_victim)
  show ?thesis
  proof (cases b)
    case True
    then show ?thesis using drop_closed u e h inv' by (simp add: enqueued_def)
  next
    case False
    have "awake s (request_flush u)"
      using request_flush_effect(2) [of u] q by (simp add: awake_def quiet_def flushes_def)
    then show ?thesis
      using False e held_trans [OF request_flush_effect(1) h] inv' full pol Some
      by (simp add: enqueued_def request_flush_effect(3) queue_after_def dr_IsFull_def)
  qed
qed

lemma enqueue_effect:
  assumes inv: "dr_inv (sa_outbound s)"
  shows "enqueued s evt (enqueueDelivery P evt s)"
proof (cases "dr_IsFull (sa_outbound s)")
  case False
  then have room: "dr_count (sa_outbound s) < dr_cap (sa_outbound s)" "length (queue s) < dr_cap (sa_outbound s)"
    by (simp_all add: dr_IsFull_def)
  then show ?thesis
    using False push_and_flush_effect [OF inv room(2)] dr_push [OF inv room(1), of evt]
    by (simp add: enqueued_def enqueueDelivery_def queue_after_def)
next
  case True
  show ?thesis
  proof (cases "sa_policy s = ''drop_oldest'' \<or> sa_policy s = ''priority_drop''")
    case pol: True
    then show ?thesis using enqueued_drop_oldest [OF inv True] enqueued_priority [OF inv True] by blast
  next
    case False
    then have "enqueueDelivery P evt s = fst (onDrop P ''queue_full'' (Some evt) s)" "queue_after s evt = queue s"
      using True by (simp_all add: enqueueDelivery_def queue_after_def dr_IsFull_def)
    then show ?thesis using enqueued_kept [OF inv _ quiet_drop] by simp
  qed
qed

section \<open>Properties\<close>

text \<open>
  Property C8. What a delivery does to the outbound queue of a session that stays open
  (\<open>enqueueDelivery\<close>, \<open>priorityDrop\<close>). A queue with room takes the event at its end. A full queue
  under \<open>drop_oldest\<close> gives up its oldest event; under \<open>priority_drop\<close> it gives up the oldest of the
  events with the lowest score, if that score is below the score of the new event, and refuses the new
  event otherwise; under every other policy it refuses the event. The ring stays well formed and keeps
  its capacity, and an event that enters has a flush on its way.
\<close>

theorem session_queue_policy:
  assumes "dr_inv (sa_outbound s)" "\<not> sa_closed (enqueueDelivery P evt s)"
  shows "queue (enqueueDelivery P evt s) = queue_after s evt \<and>
    dr_inv (sa_outbound (enqueueDelivery P evt s)) \<and>
    dr_cap (sa_outbound (enqueueDelivery P evt s)) = dr_cap (sa_outbound s) \<and>
    (queue_after s evt \<noteq> queue s \<longrightarrow> sa_flushing (enqueueDelivery P evt s))"
  using enqueue_effect [OF assms(1), of evt P] assms(2) by (auto simp: enqueued_def awake_def)

theorem session_queue_policy_witness:
  "map (\<lambda>e. env_Seq (de_Env e)) (queue demo_full) = [1, 2, 3] \<and>
   map (\<lambda>e. env_Seq (de_Env e)) (queue (enqueueDelivery demo_ports (demo_event ''marketdata.trade'' 4) demo_full)) = [1, 3, 4]"
proof -
  let ?s = "enqueueDelivery demo_ports (demo_event ''marketdata.trade'' 4) demo_full"
  have "dr_inv (sa_outbound demo_full)" "\<not> sa_closed ?s"
    "map (\<lambda>e. env_Seq (de_Env e)) (queue demo_full) = [1, 2, 3]"
    "map (\<lambda>e. env_Seq (de_Env e)) (queue_after demo_full (demo_event ''marketdata.trade'' 4)) = [1, 3, 4]"
    by code_simp+
  then show ?thesis using session_queue_policy [of demo_full demo_ports "demo_event ''marketdata.trade'' 4"] by simp
qed

end
