(* ===== verification/Session_Commands.thy ===== *)
theory Session_Commands
  imports Session_Queue
begin

text \<open>
  The commands of the client and the ticks: what every message but a delivery and a flush leaves alone,
  and the limits that the subscriptions of a session stay within.
\<close>

section \<open>Specification\<close>

text \<open>
  The subscriptions of a session within its limits: at most so many, so many of them signals, and so many
  different symbols among them. A limit that is not positive does not count.
\<close>

definition sess_symbols :: "Session \<Rightarrow> string set" where
  "sess_symbols ses = (\<lambda>sub. sub_Symbol (sb_Subject sub)) ` set (ses_Subscriptions ses)"

definition ses_wf :: "Session \<Rightarrow> bool" where
  "ses_wf ses \<longleftrightarrow> distinct (map fst (ses_subscriptions ses)) \<and> (\<forall>(k, sub) \<in> set (ses_subscriptions ses). sb_Subject sub = k)"

definition within_limits :: "EffectiveLimits \<Rightarrow> Session \<Rightarrow> bool" where
  "within_limits limits ses \<longleftrightarrow>
     (0 < el_MaxSubscriptions limits \<longrightarrow> int (length (ses_Subscriptions ses)) \<le> el_MaxSubscriptions limits) \<and>
     (0 < el_MaxSignalSubscriptions limits \<longrightarrow> int (SignalSubscriptionCount ses) \<le> el_MaxSignalSubscriptions limits) \<and>
     (0 < el_MaxSymbolsPerConnection limits \<longrightarrow> int (card (sess_symbols ses)) \<le> el_MaxSymbolsPerConnection limits)"

definition limited :: "SessionActor \<Rightarrow> bool" where
  "limited s \<longleftrightarrow> ses_wf (sa_session s) \<and> within_limits (sa_limits s) (sa_session s)"

text \<open>What every message but a delivery and a flush leaves alone.\<close>

definition calm :: "SessionActor \<Rightarrow> SessionActor \<Rightarrow> bool" where
  "calm s s' \<longleftrightarrow>
     sa_outbound s' = sa_outbound s \<and> sa_flushing s' = sa_flushing s \<and> flushes s' = flushes s \<and>
     (sa_closed s \<longrightarrow> sa_closed s') \<and> sa_policy s' = sa_policy s \<and> sa_priorities s' = sa_priorities s \<and>
     sa_limits s' = sa_limits s \<and> sc_PreferProto (sa_cfg s') = sc_PreferProto (sa_cfg s) \<and>
     (sc_hasConn (sa_cfg s) \<longrightarrow> sc_hasConn (sa_cfg s')) \<and> (chained s \<longrightarrow> chained s') \<and>
     (limited s \<longrightarrow> limited s') \<and> (\<forall>key. deliveries key (sa_wire s') = deliveries key (sa_wire s))"

section \<open>Lemmas: the commands of the client\<close>

lemma calm_refl [simp]: "calm s s"
  by (simp add: calm_def)

lemma calm_trans: "calm t u \<Longrightarrow> calm s t \<Longrightarrow> calm s u"
  unfolding calm_def by auto

lemma quiet_calm: "quiet s s' \<Longrightarrow> calm s s'"
  using quiet_chained [of s s'] unfolding calm_def quiet_def limited_def by (elim conjE) simp

lemma calm_fields:
  "calm s (s\<lparr>sa_features := b\<rparr>)" "calm s (s\<lparr>sa_helloSeen := c\<rparr>)"
  "calm s (s\<lparr>sa_rateLimiter := d\<rparr>)" "calm s (s\<lparr>sa_attached := e\<rparr>)" "calm s (s\<lparr>sa_started := f\<rparr>)"
  "calm s (s\<lparr>sa_resyncCount := n\<rparr>)" "calm s (s\<lparr>sa_queueHighWatermark := q\<rparr>)"
  "calm s (s\<lparr>sa_cfg := (sa_cfg s)\<lparr>sc_hasConn := True\<rparr>\<rparr>)" "calm s (s\<lparr>sa_out := sa_out s @ [ToRouter m]\<rparr>)"
  "calm s (s\<lparr>sa_out := sa_out s @ [ToSelfDisconnected]\<rparr>)"
  "calm s (s\<lparr>sa_lastSnapshot := l\<rparr>)" "calm s (s\<lparr>sa_snapshotSeq := m1\<rparr>)"
  "calm s (s\<lparr>sa_deferredSnapshotSubjects := m2\<rparr>)"
  by (simp_all add: calm_def flushes_def chained_def limited_def)

lemma calm_delivered:
  assumes "m = or_empty (sa_lastDeliveredSeq s) \<or> m = map_delete key (sa_lastDeliveredSeq s)"
  shows "calm s (s\<lparr>sa_lastDeliveredSeq := m\<rparr>)"
proof -
  have "\<forall>k. int_read m k \<in> {0, int_read (sa_lastDeliveredSeq s) k}"
    using assms
  proof
    assume "m = or_empty (sa_lastDeliveredSeq s)"
    then show ?thesis by (simp add: or_empty_def int_read_def map_read_def split: option.split)
  qed simp
  then have "chained s \<longrightarrow> chained (s\<lparr>sa_lastDeliveredSeq := m\<rparr>)" by (fastforce simp: chained_def)
  then show ?thesis by (simp add: calm_def flushes_def limited_def)
qed

lemma delivery_of_ack [simp]: "delivery_of key (ack_frame op r subject w n) = []"
  by (simp add: ack_frame_def)

lemmas calm_steps = calm_fields [THEN calm_trans] calm_delivered [THEN calm_trans]
  quiet_json [THEN quiet_calm, THEN calm_trans] quiet_problem [THEN quiet_calm, THEN calm_trans]
  quiet_close [THEN quiet_calm, THEN calm_trans]

lemma calm_if: "calm s a \<Longrightarrow> calm s b \<Longrightarrow> calm s (if c then a else b)"
  by simp

lemma calm_sum: "(\<And>x. calm s (f x)) \<Longrightarrow> (\<And>y. calm s (g y)) \<Longrightarrow> calm s (case v of Inl x \<Rightarrow> f x | Inr y \<Rightarrow> g y)"
  by (simp split: sum.split)

lemma calm_option: "calm s a \<Longrightarrow> (\<And>y. calm s (g y)) \<Longrightarrow> calm s (case v of None \<Rightarrow> a | Some y \<Rightarrow> g y)"
  by (simp split: option.split)

lemma calm_prod: "(\<And>x y. calm s (f x y)) \<Longrightarrow> calm s (case v of (x, y) \<Rightarrow> f x y)"
  by (simp split: prod.split)

lemma calm_let: "(\<And>x. calm s (f x)) \<Longrightarrow> calm s (Let v f)"
  by simp

lemmas calm_branches = calm_if calm_sum calm_option calm_prod calm_let calm_refl

lemma calm_defaults: "calm s (session_ensureDefaults s)"
  unfolding session_ensureDefaults_def by (intro calm_steps calm_refl) simp

lemma calm_router: "calm s (send_router m s)"
  by (simp add: send_router_def calm_fields)

lemma calm_emitHello: "calm s (emitHello P now s)"
  unfolding emitHello_def by (intro calm_branches calm_steps) simp

lemma calm_hello: "calm s (handleClientHello P now cmd s)"
  by (auto simp: handleClientHello_def Let_def split: prod.split intro!: calm_steps)

lemma calm_gate: "calm s (fst (requireHelloGate P op r s))"
  by (auto simp: requireHelloGate_def intro!: calm_steps)

lemma calm_allow: "calm s (fst (allowRateLimitedCommand P now op r s))"
  by (auto simp: allowRateLimitedCommand_def Let_def split: prod.split intro!: calm_steps)

lemma calm_range: "calm s (emitRangeFrame P op r subject params b s)"
  unfolding emitRangeFrame_def Let_def by (intro calm_branches calm_steps) simp_all

lemma calm_execute: "calm s (executeGetRange P op r raw params s)"
  unfolding executeGetRange_def by (intro calm_branches calm_steps calm_range)

lemma calm_getLast: "calm s (handleGetLast P cmd s)"
  unfolding handleGetLast_def Let_def by (intro calm_branches calm_steps) simp_all

lemma calm_backfill: "calm s (emitSubscribeBackfill P subject s)"
  unfolding emitSubscribeBackfill_def by (intro calm_branches calm_range)

lemmas calm_more = calm_steps calm_router [THEN calm_trans] calm_backfill [THEN calm_trans]
  calm_execute [THEN calm_trans]

text \<open>A command that passes the two gates, or stops at one of them.\<close>

lemma calm_gated:
  assumes "\<And>t. calm s t \<Longrightarrow> calm s (f t)"
  shows "calm s (case requireHelloGate P op r s of (s, True) \<Rightarrow> s
     | (s, False) \<Rightarrow> (case allowRateLimitedCommand P now op r s of (s, False) \<Rightarrow> s | (s, True) \<Rightarrow> f s))"
proof -
  obtain s1 b1 where g: "requireHelloGate P op r s = (s1, b1)" by fastforce
  obtain s2 b2 where a: "allowRateLimitedCommand P now op r s1 = (s2, b2)" by fastforce
  have 1: "calm s s1" using calm_gate [of s P op r] g by simp
  then have 2: "calm s s2" using calm_allow [of s1 P now op r] a calm_trans [of s1 s2 s] by simp
  show ?thesis using g a 1 2 assms by (cases b1; cases b2) auto
qed

lemma calm_gated_option:
  assumes "(case requireHelloGate P op r s of (s, True) \<Rightarrow> Some s
     | (s, False) \<Rightarrow> (case allowRateLimitedCommand P now op r s of (s, False) \<Rightarrow> Some s | (s, True) \<Rightarrow> f s)) = Some s'"
    and "\<And>t. calm s t \<Longrightarrow> f t = Some s' \<Longrightarrow> calm s s'"
  shows "calm s s'"
proof -
  obtain s1 b1 where g: "requireHelloGate P op r s = (s1, b1)" by fastforce
  obtain s2 b2 where a: "allowRateLimitedCommand P now op r s1 = (s2, b2)" by fastforce
  have 1: "calm s s1" using calm_gate [of s P op r] g by simp
  then have 2: "calm s s2" using calm_allow [of s1 P now op r] a calm_trans [of s1 s2 s] by simp
  show ?thesis using g a 1 2 assms by (cases b1; cases b2) auto
qed

lemma calm_getRange: "calm s (handleGetRange P now cmd s)"
  unfolding handleGetRange_def
  by (rule calm_gated) (intro calm_branches calm_more; assumption)

lemma calm_getRangeRequest: "calm s (handleGetRangeRequest P now r raw params s)"
  using calm_allow [of s P now "''getrange''" r] calm_execute [THEN calm_trans]
  by (auto simp: handleGetRangeRequest_def split: prod.split bool.split)

lemma calm_emit: "emitSnapshot P now subject s = Some (s', b) \<Longrightarrow> calm s s'"
  using quiet_emit [THEN quiet_calm] by fastforce

lemma calm_session:
  assumes "limited s \<Longrightarrow> ses_wf a \<and> within_limits (sa_limits s) a"
  shows "calm s (s\<lparr>sa_session := a\<rparr>)"
  using assms by (auto simp: calm_def flushes_def chained_def limited_def)

lemma subscribe_old:
  assumes "ses_IsSubscribed subject ses" "ses_wf ses"
  shows "map (\<lambda>sub. sb_Subject sub) (ses_Subscriptions (ses_Subscribe subject f ses)) =
    map (\<lambda>sub. sb_Subject sub) (ses_Subscriptions ses)"
proof -
  have "map (\<lambda>(k, sub). sb_Subject sub) (AList.update k \<lparr>sb_Subject = k, sb_MinSpread = f\<rparr> al) = map (\<lambda>(k, sub). sb_Subject sub) al"
    if "map_of al k \<noteq> None" "\<forall>(k, sub) \<in> set al. sb_Subject sub = k" for al k
    using that by (induction al) auto
  then show ?thesis
    using assms by (simp add: ses_Subscriptions_def ses_Subscribe_def ses_IsSubscribed_def ses_wf_def split_def comp_def split: option.splits)
qed

lemma subscribe_new:
  assumes "\<not> ses_IsSubscribed subject ses"
  shows "ses_Subscriptions (ses_Subscribe subject f ses) = ses_Subscriptions ses @ [\<lparr>sb_Subject = subject, sb_MinSpread = f\<rparr>]"
proof -
  have "AList.update k v al = al @ [(k, v)]" if "map_of al k = None" for al and k :: Subject and v :: Subscription
    using that by (induction al) (auto split: if_splits)
  then show ?thesis
    using assms by (simp add: ses_Subscriptions_def ses_Subscribe_def ses_IsSubscribed_def split: option.splits)
qed

lemma signal_count: "SignalSubscriptionCount ses = length (filter IsSignal (map (\<lambda>sub. sb_Subject sub) (ses_Subscriptions ses)))"
  by (simp add: SignalSubscriptionCount_def ses_Subscriptions_def filter_map comp_def)

lemma update_subjects:
  assumes "\<forall>(k, sub) \<in> set al. sb_Subject sub = k" "sb_Subject v = k"
  shows "\<forall>(k, sub) \<in> set (AList.update k v al). sb_Subject sub = k"
  using assms by (induction al) auto

lemma wf_subscribe: "ses_wf ses \<Longrightarrow> ses_wf (ses_Subscribe subject f ses)"
  using update_subjects [of "ses_subscriptions ses" "\<lparr>sb_Subject = subject, sb_MinSpread = f\<rparr>" subject]
  by (simp add: ses_wf_def ses_Subscribe_def distinct_update)

lemma limits_subscribe:
  assumes "enforceSubscriptionLimits subject s = None" "limited s"
  shows "ses_wf (ses_Subscribe subject f (sa_session s)) \<and>
    within_limits (sa_limits s) (ses_Subscribe subject f (sa_session s))"
proof (cases "ses_IsSubscribed subject (sa_session s)")
  case True
  have w: "ses_wf (sa_session s)" using assms(2) by (simp add: limited_def)
  note old = subscribe_old [OF True w, of f]
  have "length (ses_Subscriptions (ses_Subscribe subject f (sa_session s))) = length (ses_Subscriptions (sa_session s))"
    using arg_cong [OF old, of length] by simp
  moreover have "sess_symbols (ses_Subscribe subject f (sa_session s)) = sess_symbols (sa_session s)"
    using arg_cong [OF old, of "\<lambda>xs. sub_Symbol ` set xs"] by (simp add: sess_symbols_def image_image)
  ultimately show ?thesis
    using assms(2) wf_subscribe [OF w] by (simp add: limited_def within_limits_def signal_count old)
next
  case False
  have c: "card (insert (sub_Symbol subject) (sess_symbols (sa_session s))) =
      length (remdups (sub_Symbol subject # map (\<lambda>sub. sub_Symbol (sb_Subject sub)) (ses_Subscriptions (sa_session s))))"
    by (metis length_remdups_card_conv list.set(2) set_map sess_symbols_def)
  have sym: "sess_symbols (ses_Subscribe subject f (sa_session s)) = insert (sub_Symbol subject) (sess_symbols (sa_session s))"
    using subscribe_new [OF False] by (simp add: sess_symbols_def)
  have lim: "\<not> (IsSignal subject \<and> el_MaxSignalSubscriptions (sa_limits s) > 0 \<and>
       int (SignalSubscriptionCount (sa_session s)) \<ge> el_MaxSignalSubscriptions (sa_limits s))"
    "\<not> (el_MaxSubscriptions (sa_limits s) > 0 \<and>
       int (length (ses_Subscriptions (sa_session s))) \<ge> el_MaxSubscriptions (sa_limits s))"
    "\<not> (el_MaxSymbolsPerConnection (sa_limits s) > 0 \<and>
       int (card (insert (sub_Symbol subject) (sess_symbols (sa_session s)))) > el_MaxSymbolsPerConnection (sa_limits s))"
    using assms(1) False unfolding enforceSubscriptionLimits_def Let_def c by (simp_all split: if_splits)
  show ?thesis
    using assms(2) wf_subscribe lim sym subscribe_new [OF False, of f]
    by (auto simp: limited_def within_limits_def signal_count)
qed

lemma limits_unsubscribe:
  assumes "ses_Unsubscribe subject (sa_session s) = (ses, None)" "limited s"
  shows "ses_wf ses \<and> within_limits (sa_limits s) ses"
proof -
  have ses: "ses = (sa_session s)\<lparr>ses_subscriptions := AList.delete subject (ses_subscriptions (sa_session s))\<rparr>"
    using assms(1) by (auto simp: ses_Unsubscribe_def split: option.splits)
  let ?f = "\<lambda>(k, v :: Subscription). subject \<noteq> k"
  have d: "AList.delete subject al = filter ?f al" for al by (simp add: AList.delete_eq)
  have sub: "length (filter Q (map snd (filter ?f al))) \<le> length (filter Q (map snd al))" for Q al
    by (induction al) auto
  have "length (ses_Subscriptions ses) \<le> length (ses_Subscriptions (sa_session s))"
    "SignalSubscriptionCount ses \<le> SignalSubscriptionCount (sa_session s)"
    using sub [of "\<lambda>_. True"] sub by (simp_all add: ses ses_Subscriptions_def SignalSubscriptionCount_def d)
  moreover have "card (sess_symbols ses) \<le> card (sess_symbols (sa_session s))"
    by (rule card_mono) (auto simp: sess_symbols_def ses ses_Subscriptions_def d)
  moreover have "ses_wf ses"
    using assms(2) by (auto simp: limited_def ses_wf_def ses d distinct_map_filter)
  ultimately show ?thesis using assms(2) by (auto simp: limited_def within_limits_def)
qed

lemma calm_admitted:
  assumes "subscribe_admitted P now cmd subject s = Some s'" "enforceSubscriptionLimits subject s = None"
  shows "calm s s'"
proof -
  obtain t sent where e: "emitSnapshot P now subject
      (s\<lparr>sa_session := ses_Subscribe subject (f64_of_int 0) (sa_session s)\<rparr>) = Some (t, sent)"
    using assms by (auto simp: subscribe_admitted_def split: option.splits)
  have t: "calm s t" using calm_emit [OF e] calm_session [OF limits_subscribe [OF assms(2)]] calm_trans by metis
  obtain u where u: "defer_snapshot P subject sent t = Some u" and s': "s' = emitSubscribeBackfill P subject
      (writeJSON P (ack_frame (cmd_Op cmd) (cmd_RequestID cmd) (subject_String subject) 0 0)
        (send_router (SubscribeSession (ses_id (sa_session u)) subject) u))"
    using assms e by (auto simp: subscribe_admitted_def Let_def split: option.splits)
  have "calm t u" using u calm_fields(13) by (auto simp: defer_snapshot_def split: if_splits option.splits)
  then have "calm s u" using t calm_trans by metis
  then show ?thesis unfolding s' by (auto intro!: calm_more)
qed

lemma calm_subscribe: "handleSubscribe P now cmd s = Some s' \<Longrightarrow> calm s s'"
  unfolding handleSubscribe_def
  by (erule calm_gated_option)
    (auto split: sum.splits option.splits intro!: calm_more dest!: calm_admitted elim: calm_trans)

lemma calm_unsubscribe: "calm s (handleUnsubscribe P cmd s)"
  by (auto simp: handleUnsubscribe_def Let_def split: sum.split prod.split option.split intro!: calm_more
      calm_session [THEN calm_trans] dest: limits_unsubscribe)

lemma calm_resync: "handleResync P now cmd s = Some s' \<Longrightarrow> calm s s'"
  unfolding handleResync_def Let_def
  by (erule calm_gated_option)
    (auto split: sum.splits option.splits bool.splits if_splits intro!: calm_more dest!: calm_emit elim: calm_trans)

lemma calm_inbound:
  assumes "handleInboundText P now text s = Some s'"
  shows "calm s s'"
proof -
  obtain cmd err where c: "pt_command P text = (cmd, err)" by fastforce
  show ?thesis
  proof (cases err)
    case (Some e)
    then show ?thesis using assms c by (auto simp: handleInboundText_def intro!: calm_more)
  next
    case None
    then show ?thesis
      using assms c unfolding handleInboundText_def Let_def handlePing_def
      by (simp split: if_splits)
        (auto intro!: calm_more intro: calm_hello calm_unsubscribe calm_getLast calm_getRange calm_subscribe calm_resync)
  qed
qed

lemma calm_attach: "calm s (attachConn P now c s)"
  unfolding attachConn_def Let_def
  by (auto intro!: calm_more calm_emitHello [THEN calm_trans])

lemma calm_start: "calm s (onStarted P now s)"
  unfolding onStarted_def Let_def by (auto intro!: calm_more calm_attach [THEN calm_trans])

lemma calm_keepalive: "calm s (handleKeepaliveTick P s)"
  using quiet_write [of PingFrame s P, THEN quiet_calm]
  by (auto simp: handleKeepaliveTick_def split: prod.split option.split intro!: calm_more)

lemma calm_metrics: "calm s (handleMetricsTick P s)"
  by (auto simp: handleMetricsTick_def Let_def split: prod.split intro!: calm_more)

lemma calm_handle:
  assumes "session_handle P now msg s = Some s'" "msg \<noteq> FlushOutbound" "\<forall>evt. msg \<noteq> Delivery evt"
  shows "calm s s'"
  using assms
  by (cases msg) (auto intro!: calm_more
      intro: calm_start calm_attach calm_inbound calm_keepalive calm_metrics calm_getRangeRequest)

end
