(* ===== verification/Session_Run.thy ===== *)
theory Session_Run
  imports Session_Commands
begin

text \<open>
  Runs of a session: every message that its actor can receive, in any order, and the flush messages that
  it sends to itself, each handled at most once. A queued event always has a flush on its way, flushing
  empties the queue, and the numbers that the client receives are chained.
\<close>

section \<open>Specification\<close>

text \<open>The writing of the first \<open>k\<close> events of the queue.\<close>

definition drained :: "nat \<Rightarrow> SessionActor \<Rightarrow> SessionActor \<Rightarrow> bool" where
  "drained k s s' \<longleftrightarrow>
     steady s s' \<and> dr_inv (sa_outbound s') \<and> dr_cap (sa_outbound s') = dr_cap (sa_outbound s) \<and>
     queue s' = drop k (queue s)"

text \<open>
  The outcome of one round of the flush loop: some events went out and the loop goes on, or the queue was
  empty, or the session is closed.
\<close>

definition flush_outcome :: "nat \<Rightarrow> SessionActor \<Rightarrow> SessionActor \<Rightarrow> nat option \<Rightarrow> bool" where
  "flush_outcome n s s' out \<longleftrightarrow>
     (case out of
        Some k \<Rightarrow> Suc k \<le> n \<and> Suc k \<le> length (queue s) \<and> drained (Suc k) s s'
      | None \<Rightarrow> (\<exists>t. queue s = [] \<and> drained 0 s t \<and> s' = t\<lparr>sa_flushing := False\<rparr>) \<or>
          (\<exists>k. sa_closed s' \<and> drained k s s'))"

text \<open>The outcome of a flush that may write \<open>n\<close> events.\<close>

definition flushed :: "nat \<Rightarrow> SessionActor \<Rightarrow> SessionActor \<Rightarrow> bool" where
  "flushed n s s' \<longleftrightarrow>
     sa_cfg s' = sa_cfg s \<and> sa_session s' = sa_session s \<and> sa_limits s' = sa_limits s \<and>
     sa_policy s' = sa_policy s \<and> sa_priorities s' = sa_priorities s \<and> (sa_closed s \<longrightarrow> sa_closed s') \<and>
     dr_inv (sa_outbound s') \<and> dr_cap (sa_outbound s') = dr_cap (sa_outbound s) \<and>
     (sa_closed s' \<or>
      queue s' = drop n (queue s) \<and>
      (if queue s' = [] then \<not> sa_flushing s' \<and> flushes s' = flushes s
       else sa_flushing s' = sa_flushing s \<and> flushes s' = Suc (flushes s)))"

text \<open>
  The runs from a state: messages in any order, where a flush message can only be one that the session
  has sent to itself and has not handled yet. The number counts the flushes handled.
\<close>

inductive session_run :: "ports \<Rightarrow> SessionActor \<Rightarrow> nat \<Rightarrow> SessionActor \<Rightarrow> bool" for P s0 where
  start: "session_run P s0 0 s0"
| message: "session_run P s0 h s \<Longrightarrow> msg \<noteq> FlushOutbound \<Longrightarrow> session_Receive P now msg s = Some s' \<Longrightarrow>
    session_run P s0 h s'"
| flush: "session_run P s0 h s \<Longrightarrow> h < flushes s \<Longrightarrow> session_Receive P now FlushOutbound s = Some s' \<Longrightarrow>
    session_run P s0 (Suc h) s'"

text \<open>The invariant of a run.\<close>

definition scheduled :: "nat \<Rightarrow> nat \<Rightarrow> SessionActor \<Rightarrow> bool" where
  "scheduled capacity h s \<longleftrightarrow>
     dr_inv (sa_outbound s) \<and> dr_cap (sa_outbound s) = capacity \<and>
     (sa_closed s \<or> flushes s = h + (if sa_flushing s then 1 else 0) \<and> (queue s \<noteq> [] \<longrightarrow> sa_flushing s))"

text \<open>Executable checks that a sequence of messages is a run: no panic, and no flush that was not asked for.\<close>

fun flush_count :: "(int \<times> session_msg) list \<Rightarrow> nat" where
  "flush_count [] = 0"
| "flush_count ((now, msg) # msgs) = (if msg = FlushOutbound then 1 else 0) + flush_count msgs"

fun steps_ok :: "ports \<Rightarrow> (int \<times> session_msg) list \<Rightarrow> nat \<Rightarrow> SessionActor \<Rightarrow> bool" where
  "steps_ok P [] h s = True"
| "steps_ok P ((now, msg) # msgs) h s =
     ((msg = FlushOutbound \<longrightarrow> h < flushes s) \<and>
      (case session_Receive P now msg s of
         None \<Rightarrow> False
       | Some s \<Rightarrow> steps_ok P msgs (h + (if msg = FlushOutbound then 1 else 0)) s))"

section \<open>Lemmas: draining the queue\<close>

lemma stay_drained: "stay s s' \<Longrightarrow> dr_inv (sa_outbound s) \<Longrightarrow> drained 0 s s'"
  by (simp add: stay_def drained_def)

lemma drained_inv: "drained k s s' \<Longrightarrow> dr_inv (sa_outbound s')"
  by (simp add: drained_def)

lemma drained_trans: "drained j t u \<Longrightarrow> drained k s t \<Longrightarrow> drained (k + j) s u"
  unfolding drained_def using steady_trans [of t u s] by (auto simp: add.commute)

lemma drained_stay: "drained k s t \<Longrightarrow> stay t u \<Longrightarrow> drained k s u"
  using drained_trans [of 0 t u k s] stay_drained [of t u] by (simp add: drained_def)

lemma stay_close: "stay s (closeSession s)"
  by (intro quiet_stay quiet_close)

lemma pop_drained:
  assumes "dr_PopFront z (sa_outbound s) = Some (evt, r)" "dr_inv (sa_outbound s)"
  shows "drained 1 s (s\<lparr>sa_outbound := r\<rparr>) \<and> queue s \<noteq> [] \<and> evt = hd (queue s)"
  using assms dr_drop [OF assms(2), of z]
  by (cases "queue s") (auto simp: dr_pop drained_def steady_def flushes_def)

lemma pop_none: "dr_PopFront z (sa_outbound s) = None \<Longrightarrow> dr_inv (sa_outbound s) \<Longrightarrow> queue s = []"
  by (cases "queue s") (auto simp: dr_pop)

lemma drained_record_batch:
  assumes "record_batch P subject preps s = Some s'" "dr_inv (sa_outbound s)" "length preps \<le> length (queue s)"
  shows "drained (length preps) s s'"
  using assms
proof (induction P subject preps s rule: record_batch.induct)
  case (1 P subject s)
  then show ?case by (simp add: drained_def)
next
  case (2 P subject prep preps s)
  obtain evt r where p: "dr_PopFront zero_event (sa_outbound s) = Some (evt, r)"
    using "2.prems" pop_none [of zero_event s] by (cases "dr_PopFront zero_event (sa_outbound s)") fastforce+
  let ?t = "s\<lparr>sa_outbound := r\<rparr>"
  note t = pop_drained [OF p "2.prems"(2), THEN conjunct1]
  obtain s1 s2 where s1: "record_delivered (subject_String subject) (pb_seq prep)
        (pb_tsServer prep - pb_tsIngest prep) ?t = Some s1"
    and s2: "record_payload P (subject_String subject)
        \<lparr>se_Seq = pb_seq prep, se_TsServer = pb_tsServer prep, se_Venue = sub_Venue subject,
         se_Symbol = sub_Symbol subject, se_Channel = subject_channel subject, se_Payload = pb_payload prep\<rparr> s1 = Some s2"
    and r: "record_batch P subject preps s2 = Some s'"
    using "2.prems"(1) p by (auto simp: Let_def split: option.splits)
  have d: "drained 1 s s2"
    using drained_stay [OF drained_stay [OF t stay_delivered [OF s1]] quiet_stay [OF quiet_record_payload [OF s2]]] .
  have "drained (length preps) s2 s'"
  proof (rule "2.IH" [OF refl refl])
    show "record_batch P subject preps s2 = Some s'" by (rule r)
  qed (use p s1 s2 d "2.prems"(3) in \<open>auto simp: drained_def simp flip: length_views(2)\<close>)
  then show ?case using drained_trans [OF _ d] by simp
qed

lemma candidate_bounds: "i \<le> candidate_loop r subject i n \<and> candidate_loop r subject i n \<le> i + n"
  by (induction r subject i n rule: candidate_loop.induct) auto

lemma prepare_batch_length: "prepare_batch P ts prev evts = Inr preps \<Longrightarrow> length preps = length evts"
  by (induction P ts prev evts arbitrary: preps rule: prepare_batch.induct) (auto split: sum.splits)

lemma prepare_batch_seqs:
  "prepare_batch P ts prev evts = Inr preps \<Longrightarrow> map pb_seq preps = map (\<lambda>e. env_Seq (de_Env e)) evts"
  by (induction P ts prev evts arbitrary: preps rule: prepare_batch.induct) (auto split: sum.splits)

lemma candidate_subjects: "i \<le> j \<Longrightarrow> j < candidate_loop r subject i n \<Longrightarrow> de_Subject (dr_At j r) = subject"
proof (induction r subject i n rule: candidate_loop.induct)
  case (2 r subject i n)
  then show ?case by (cases "j = i") (auto split: if_splits)
qed simp

text \<open>The cases of writing one batch.\<close>

lemma batch_loop_cases:
  assumes "batch_loop P subject preps n s = Some (s', k, e)"
  obtains (same) "s' = s" "k = 0" "e \<noteq> None"
  | (fail) f err where "writeRawMessage P f s = (s', Some err)" "k = 0" "e \<noteq> None"
  | (sent) t where "writeRawMessage P (batch_frame subject (take k preps) s) s = (t, None)"
      "record_batch P subject (take k preps) t = Some s'" "2 \<le> k" "k \<le> n" "e = None"
  using assms
proof (induction P subject preps n s arbitrary: thesis rule: batch_loop.induct)
  case (1 P subject preps s)
  then show thesis by auto
next
  case (2 P subject preps n s)
  show thesis
  proof (cases "n = 0 \<or> (\<exists>err. pt_size P (batch_frame subject (take (Suc n) preps) s) = Inl err)")
    case True
    then show thesis using "2.prems"(1,4) by (auto simp: Let_def split: if_splits)
  next
    case False
    then obtain rawLen where z: "pt_size P (batch_frame subject (take (Suc n) preps) s) = Inr rawLen"
      by (metis sum.exhaust)
    obtain c w where p: "planWireCompression P (batch_frame subject (take (Suc n) preps) s) rawLen s = (c, w)" by fastforce
    obtain t e1 where wr: "writeRawMessage P (batch_frame subject (take (Suc n) preps) s) s = (t, e1)" by fastforce
    show thesis
    proof (cases "too_large w s")
      case True
      then have l: "batch_loop P subject preps n s = Some (s', k, e)" using "2.prems"(4) False z p by simp
      from False have "n \<noteq> 0" by simp
      show thesis
      proof (rule "2.IH" [OF \<open>n \<noteq> 0\<close> refl z p [symmetric] True _ _ _ l])
        show thesis if "writeRawMessage P (batch_frame subject (take k preps) s) s = (t, None)"
          "record_batch P subject (take k preps) t = Some s'" "2 \<le> k" "k \<le> n" "e = None" for t
          using that "2.prems"(3) by simp
      qed (use "2.prems"(1,2) in blast)+
    next
      case nl: False
      then show thesis
        using "2.prems" False z p wr by (cases e1) (auto simp: Let_def split: option.splits)
    qed
  qed
qed

lemma drained_batch_loop:
  assumes "batch_loop P subject preps n s = Some (s', k, e)" "dr_inv (sa_outbound s)"
    "length preps \<le> length (queue s)" "n \<le> length preps"
  shows "drained k s s' \<and> k \<le> n"
  using assms(1)
proof (cases rule: batch_loop_cases)
  case same
  then show ?thesis using stay_drained [OF stay_refl assms(2)] by simp
next
  case (fail f err)
  then show ?thesis using stay_drained [OF stay_raw assms(2)] by simp
next
  case (sent t)
  have st: "drained 0 s t" using stay_drained [OF stay_raw [OF sent(1)] assms(2)] .
  then have "dr_inv (sa_outbound t)" "queue t = queue s" by (simp_all add: drained_def)
  then have "drained (length (take k preps)) t s'"
    using drained_record_batch [OF sent(2)] assms(3,4) sent(4) by auto
  then show ?thesis using drained_trans [OF _ st] sent(4) assms(4) by simp
qed

lemma batch_cases:
  assumes "writeDeliveryBatchFromQueue P now maxItems s = Some (s', k, e)"
  obtains (same) "s' = s" "k = 0"
  | (retried) subject where "retry_deferred P now subject s = Some s'" "k = 0"
  | (loop) subject t preps where "retry_deferred P now subject s = Some t"
      "batch_loop P subject preps (length preps) t = Some (s', k, e)"
      "length preps \<le> maxItems" "length preps \<le> length (queue s)"
      "map pb_seq preps = map (\<lambda>e. env_Seq (de_Env e)) (take (length preps) (queue s))"
      "\<forall>e \<in> set (take (length preps) (queue s)). de_Subject e = subject"
proof -
  define n where "n = min (min maxItems wsFlushBatchSize) (dr_Len (sa_outbound s))"
  have n: "n \<le> maxItems" "n \<le> length (queue s)" by (simp_all add: n_def dr_Len_def)
  show thesis
  proof (cases "n < 2")
    case True
    then show thesis using assms same by (simp add: writeDeliveryBatchFromQueue_def n_def)
  next
    case False
    define subject where "subject = de_Subject (dr_At 0 (sa_outbound s))"
    obtain t where t: "retry_deferred P now subject s = Some t"
      using assms False by (auto simp: writeDeliveryBatchFromQueue_def Let_def subject_def n_def split: option.splits)
    define c where "c = candidate_loop (sa_outbound t) subject 1 (n - 1)"
    have c: "c \<le> n" using candidate_bounds [of 1 "sa_outbound t" subject "n - 1"] False unfolding c_def by linarith
    define prepared where "prepared = prepare_batch P (normalizeServerTS now (clockNowMs now))
      (int_read (sa_lastDeliveredSeq t) (subject_String subject)) (map (\<lambda>i. dr_At i (sa_outbound t)) [0..<c])"
    have r: "(if c < 2 then Some (t, 0, None)
        else case prepared of Inl p \<Rightarrow> Some (t, 0, Some p) | Inr preps \<Rightarrow> batch_loop P subject preps c t) = Some (s', k, e)"
      unfolding prepared_def c_def n_def subject_def
      using assms False t by (simp add: writeDeliveryBatchFromQueue_def Let_def subject_def n_def del: One_nat_def)
    show thesis
    proof (cases "\<exists>preps. \<not> c < 2 \<and> prepared = Inr preps")
      case True
      then obtain preps where p: "\<not> c < 2" "prepared = Inr preps" by blast
      have len: "length preps = c" using prepare_batch_length p(2) by (fastforce simp: prepared_def)
      have out: "sa_outbound t = sa_outbound s" using quiet_retry [OF t] by (simp add: quiet_def)
      have ci: "i < dr_count (sa_outbound s)" if "i < c" for i using that c n by simp
      have "map (\<lambda>i. dr_At i (sa_outbound t)) [0..<c] = take c (queue s)"
        using ci c n by (intro nth_equalityI) (simp_all add: out dr_at)
      then have seqs: "map pb_seq preps = map (\<lambda>e. env_Seq (de_Env e)) (take c (queue s))"
        using prepare_batch_seqs p(2) by (metis prepared_def)
      have "de_Subject (queue s ! i) = subject" if "i < c" for i
        using candidate_subjects [of 1 i "sa_outbound t" subject "n - 1"] that out dr_at [OF ci [OF that]]
        by (cases "i = 0") (auto simp: c_def subject_def)
      then have "\<forall>e \<in> set (take c (queue s)). de_Subject e = subject" by (auto simp: in_set_conv_nth)
      then show thesis using loop [OF t, of preps] r p c n len seqs by simp
    next
      case False
      then have "s' = t" "k = 0" using r by (auto split: if_splits sum.splits)
      then show thesis using retried t by simp
    qed
  qed
qed

lemma drained_batch:
  assumes "writeDeliveryBatchFromQueue P now maxItems s = Some (s', k, e)" "dr_inv (sa_outbound s)"
  shows "drained k s s' \<and> k \<le> maxItems \<and> k \<le> length (queue s)"
  using assms(1)
proof (cases rule: batch_cases)
  case same
  then show ?thesis using stay_drained [OF stay_refl assms(2)] by simp
next
  case (retried subject)
  then show ?thesis using stay_drained [OF quiet_stay [OF quiet_retry] assms(2)] by simp
next
  case (loop subject t preps)
  have st: "drained 0 s t" using stay_drained [OF quiet_stay [OF quiet_retry [OF loop(1)]] assms(2)] .
  then have "dr_inv (sa_outbound t)" "queue t = queue s" by (simp_all add: drained_def)
  then have "drained k t s' \<and> k \<le> length preps" using drained_batch_loop [OF loop(2)] loop(4) by simp
  then show ?thesis using drained_trans [OF _ st, of k s'] loop by simp
qed

lemma flush_one_cases:
  assumes "flush_one P now s = Some (s', out)" "dr_inv (sa_outbound s)"
  obtains (empty) "queue s = []" "s' = s\<lparr>sa_flushing := False\<rparr>" "out = None"
  | (sent) "queue s \<noteq> []" "drained 1 s s'" "out = Some 0"
  | (closed) "sa_closed s'" "drained 1 s s'" "out = None"
proof (cases "dr_PopFront zero_event (sa_outbound s)")
  case None
  then show thesis using assms empty pop_none [OF None assms(2)] by (simp add: flush_one_def)
next
  case (Some p)
  obtain evt r where p: "dr_PopFront zero_event (sa_outbound s) = Some (evt, r)" using Some by (cases p) simp
  note d = pop_drained [OF p assms(2)]
  obtain t e where w: "writeDeliveryEvent P now evt (s\<lparr>sa_outbound := r\<rparr>) = Some (t, e)"
    using assms(1) p by (auto simp: flush_one_def split: option.splits)
  have dt: "drained 1 s t" using drained_stay [OF d [THEN conjunct1] stay_event [OF w]] .
  show thesis
    using assms(1) p w dt d sent closed drained_stay [OF dt stay_close]
    by (cases e) (auto simp: flush_one_def)
qed

lemma flush_one_outcome:
  assumes "flush_one P now t = Some (s', out)" "drained 0 s t" "0 < n"
  shows "flush_outcome n s s' out"
proof -
  have q: "queue t = queue s" "dr_inv (sa_outbound t)" using assms(2) by (simp_all add: drained_def)
  show ?thesis
    using assms(1) q(2)
  proof (cases rule: flush_one_cases)
    case empty
    then show ?thesis using assms(2) q by (auto simp: flush_outcome_def)
  next
    case sent
    then have "Suc 0 \<le> length (queue s)" using q(1) by (cases "queue s") auto
    then show ?thesis using sent drained_trans [OF sent(2) assms(2)] assms(3) by (simp add: flush_outcome_def)
  next
    case closed
    then show ?thesis using drained_trans [OF closed(2) assms(2)] by (auto simp: flush_outcome_def)
  qed
qed

lemma flush_step_outcome:
  assumes "flush_step P now n s = Some (s', out)" "dr_inv (sa_outbound s)" "0 < n"
  shows "flush_outcome n s s' out"
proof (cases "HasBatching (sa_features s) \<and> \<not> sc_PreferProto (sa_cfg s)")
  case False
  then have "flush_one P now s = Some (s', out)" using assms(1) by (auto simp: flush_step_def)
  then show ?thesis using flush_one_outcome stay_drained [OF stay_refl assms(2)] assms(3) by metis
next
  case True
  then obtain t k e where b: "writeDeliveryBatchFromQueue P now n s = Some (t, k, e)"
    using assms(1) by (auto simp: flush_step_def split: option.splits)
  note d = drained_batch [OF b assms(2)]
  show ?thesis
  proof (cases e)
    case (Some p)
    then have "s' = closeSession t" "out = None" using assms(1) True b by (simp_all add: flush_step_def)
    then show ?thesis using drained_stay [OF d [THEN conjunct1] stay_close] by (auto simp: flush_outcome_def)
  next
    case None
    show ?thesis
    proof (cases k)
      case 0
      then show ?thesis using assms(1,3) True b None d flush_one_outcome by (auto simp: flush_step_def)
    next
      case (Suc j)
      then show ?thesis using assms(1) True b None d by (auto simp: flush_step_def flush_outcome_def)
    qed
  qed
qed

text \<open>The whole loop, for a session that stays open: the queue without what was written, and a flush for the rest.\<close>

lemma flush_loop_effect:
  assumes "flush_loop P now n s = Some s'" "dr_inv (sa_outbound s)"
  shows "flushed n s s'"
  using assms
proof (induction P now n s arbitrary: s' rule: flush_loop.induct)
  case (1 P now n s)
  have q: "queue s = [] \<longleftrightarrow> dr_count (sa_outbound s) = 0" by (metis length_0_conv length_views(2))
  show ?case
  proof (cases "n = 0")
    case True
    then show ?thesis
      using q "1.prems" by (subst (asm) flush_loop.simps) (auto simp: flushed_def held_def chained_def flushes_def dr_Len_def split: if_splits)
  next
    case False
    then obtain t out where st: "flush_step P now n s = Some (t, out)"
      using "1.prems"(1) by (subst (asm) flush_loop.simps) (auto split: option.splits)
    have o: "flush_outcome n s t out" using flush_step_outcome [OF st "1.prems"(2)] False by simp
    show ?thesis
    proof (cases out)
      case None
      then have "s' = t" using "1.prems"(1) False st by (subst (asm) flush_loop.simps) simp
      then show ?thesis using o None q by (auto simp: flush_outcome_def flushed_def drained_def steady_def flushes_def)
    next
      case (Some k)
      then have d: "Suc k \<le> n" "drained (Suc k) s t" using o by (simp_all add: flush_outcome_def)
      have "flush_loop P now (n - Suc k) t = Some s'" using "1.prems"(1) False st Some by (subst (asm) flush_loop.simps) simp
      then have "flushed (n - Suc k) t s'"
        using "1.IH" [OF False st refl Some] drained_inv [OF d(2)] by simp
      then show ?thesis using d by (auto simp: flushed_def drained_def steady_def)
    qed
  qed
qed

lemma flush_effect:
  assumes "flushOutbound P now s = Some s'" "dr_inv (sa_outbound s)"
  shows "flushed wsFlushBatchSize s s'"
proof (cases "sa_closed s")
  case True
  then show ?thesis using assms by (auto simp: flushOutbound_def flushed_def)
next
  case False
  then show ?thesis using assms flush_loop_effect by (simp add: flushOutbound_def)
qed

section \<open>Lemmas: the chain of numbers\<close>

lemma chain_append:
  assumes "chained s" "\<forall>k. k \<noteq> key \<longrightarrow> delivery_of k f = []" "delivery_of key f \<noteq> []"
    and "linked_from (last_seq 0 (deliveries key (sa_wire s))) (delivery_of key f)"
    and "sa_wire s' = sa_wire s @ [f]"
    and "\<forall>k. int_read (sa_lastDeliveredSeq s') k =
      (if k = key then fst (last (delivery_of key f)) else int_read (sa_lastDeliveredSeq s) k)"
  shows "chained s'"
  using assms unfolding chained_def by (auto simp: linked_append last_seq_def)

lemma chained_wire: "chained s \<Longrightarrow> chained (s\<lparr>sa_writes := n, sa_wire := sa_wire s @ []\<rparr>)"
  by (simp add: chained_def)

lemma delivered_effect:
  assumes "record_delivered key seq lag s = Some s'"
  shows "sa_wire s' = sa_wire s"
    "int_read (sa_lastDeliveredSeq s') k = (if k = key then seq else int_read (sa_lastDeliveredSeq s) k)"
  using assms by (auto simp: record_delivered_def map_set_def split: option.splits)

lemma payload_effect:
  assumes "record_payload P key entry s = Some s'"
  shows "sa_wire s' = sa_wire s" "sa_lastDeliveredSeq s' = sa_lastDeliveredSeq s"
  using assms by (auto simp: record_payload_def split: option.splits if_splits)

lemma write_shape:
  assumes "writeRawMessage P f s = (s', e) \<or> writeJSONDirect P f s = (s', e)" "sc_hasConn (sa_cfg s)"
  shows "\<exists>n. s' = s\<lparr>sa_writes := n, sa_wire := sa_wire s @ (if e = None then [f] else [])\<rparr>"
  using assms(1)
proof
  assume "writeRawMessage P f s = (s', e)"
  then show ?thesis by (rule raw_shape [OF _ assms(2)])
next
  assume "writeJSONDirect P f s = (s', e)"
  then show ?thesis by (rule direct_shape [OF _ assms(2)])
qed

lemma chain_json_frame:
  assumes w: "write_json_frame P frame evt entry e1 e2 s = Some (s', e)" and c: "chained s" and conn: "sc_hasConn (sa_cfg s)"
    and d: "\<forall>k. delivery_of k frame = (if k = subject_String (de_Subject evt) then [(se_Seq entry, prev)] else [])"
    and p: "prev = None \<or> prev = Some (int_read (sa_lastDeliveredSeq s) (subject_String (de_Subject evt)))"
  shows "chained s'"
  using w
proof (cases rule: json_frame_cases)
  case same
  then show ?thesis using c by simp
next
  case drop
  then show ?thesis using quiet_chained [OF quiet_drop c] by simp
next
  case (fail err)
  from write_shape [OF fail conn] obtain n where "s' = s\<lparr>sa_writes := n, sa_wire := sa_wire s @ []\<rparr>"
    by (simp only: option.distinct if_False) blast
  then show ?thesis using chained_wire [OF c] by (simp only:)
next
  case (sent s1 s2)
  let ?key = "subject_String (de_Subject evt)"
  from write_shape [OF sent(1) conn] obtain n where s1: "s1 = s\<lparr>sa_writes := n, sa_wire := sa_wire s @ [frame]\<rparr>"
    by (simp only: if_True refl) blast
  have "int_read (sa_lastDeliveredSeq s) ?key \<in> {0, last_seq 0 (deliveries ?key (sa_wire s))}"
    using c by (simp add: chained_def)
  then have l: "linked_from (last_seq 0 (deliveries ?key (sa_wire s))) (delivery_of ?key frame)" using d p by auto
  have "sa_wire s' = sa_wire s @ [frame]"
    using payload_effect [OF sent(3)] delivered_effect(1) [OF sent(2)] s1 by simp
  moreover have "\<forall>k. int_read (sa_lastDeliveredSeq s') k =
      (if k = ?key then fst (last (delivery_of ?key frame)) else int_read (sa_lastDeliveredSeq s) k)"
    using payload_effect [OF sent(3)] delivered_effect(2) [OF sent(2)] d s1 by simp
  ultimately show ?thesis using chain_append [OF c _ _ l] d by simp
qed

lemma chain_event:
  assumes w: "writeDeliveryEvent P now evt s = Some (s', e)" and c: "chained s"
    and conn: "sc_hasConn (sa_cfg s)" "\<not> sc_PreferProto (sa_cfg s)"
  shows "chained s'"
proof -
  obtain t where r: "retry_deferred P now (de_Subject evt) s = Some t"
    using w by (auto simp: writeDeliveryEvent_def Let_def split: option.splits)
  have t: "chained t" "sa_cfg t = sa_cfg s"
    using quiet_chained [OF quiet_retry [OF r] c] quiet_retry [OF r] by (simp_all add: quiet_def)
  show ?thesis
  proof (cases "prepareJSONPayload P (de_Env evt)")
    case (Inl p)
    then show ?thesis using w r t conn by (simp add: writeDeliveryEvent_def Let_def)
  next
    case (Inr payload)
    show ?thesis
    proof (cases "IsSignal (de_Subject evt)")
      case True
      show ?thesis
      proof (cases "prepareSignalFramePayload (pt_signal P) payload")
        case (Inl p)
        then show ?thesis using w r t conn Inr True by (simp add: writeDeliveryEvent_def Let_def)
      next
        case signal: (Inr signalPayload)
        show ?thesis
        proof (rule chain_json_frame [where prev = None, OF _ t(1)])
          show "write_json_frame P
              (SignalFrame \<lparr>gf_Subject = subject_String (de_Subject evt), gf_Seq = env_Seq (de_Env evt),
                 gf_TsServer = normalizeServerTS now (clockNowMs now), gf_Payload = signalPayload\<rparr>)
              evt
              \<lparr>se_Seq = env_Seq (de_Env evt), se_TsServer = normalizeServerTS now (clockNowMs now),
               se_Venue = sub_Venue (de_Subject evt), se_Symbol = sub_Symbol (de_Subject evt),
               se_Channel = ''signal'', se_Payload = payload\<rparr>
              ''signal frame marshal failed'' ''signal frame write failed'' t = Some (s', e)"
            using w r t conn Inr True signal by (simp add: writeDeliveryEvent_def Let_def)
        qed (use t conn in simp_all)
      qed
    next
      case False
      show ?thesis
      proof (rule chain_json_frame [where prev = "Some (int_read (sa_lastDeliveredSeq t) (subject_String (de_Subject evt)))", OF _ t(1)])
        show "write_json_frame P
            (EventFrame \<lparr>ef_Subject = subject_String (de_Subject evt), ef_StreamID = subject_String (de_Subject evt),
               ef_ServerInstanceID = sc_ServerInstanceID (sa_cfg t), ef_Seq = env_Seq (de_Env evt),
               ef_PrevSeq = int_read (sa_lastDeliveredSeq t) (subject_String (de_Subject evt)),
               ef_TsIngest = env_TsIngest (de_Env evt), ef_TsServer = normalizeServerTS now (clockNowMs now),
               ef_Venue = sub_Venue (de_Subject evt), ef_Symbol = sub_Symbol (de_Subject evt),
               ef_Channel = subject_channel (de_Subject evt), ef_Payload = payload\<rparr>)
            evt
            \<lparr>se_Seq = env_Seq (de_Env evt), se_TsServer = normalizeServerTS now (clockNowMs now),
             se_Venue = sub_Venue (de_Subject evt), se_Symbol = sub_Symbol (de_Subject evt),
             se_Channel = subject_channel (de_Subject evt), se_Payload = payload\<rparr>
            ''json marshal failed'' ''json write failed'' t = Some (s', e)"
          using w r t conn Inr False by (simp add: writeDeliveryEvent_def Let_def)
      qed (use t conn in simp_all)
    qed
  qed
qed

lemma batch_effect:
  assumes "record_batch P subject preps s = Some s'"
  shows "sa_wire s' = sa_wire s \<and> int_read (sa_lastDeliveredSeq s') k =
    (if preps \<noteq> [] \<and> k = subject_String subject then pb_seq (last preps) else int_read (sa_lastDeliveredSeq s) k)"
  using assms
proof (induction P subject preps s rule: record_batch.induct)
  case (1 P subject s)
  then show ?case by simp
next
  case (2 P subject prep preps s)
  define t where "t = (case dr_PopFront zero_event (sa_outbound s) of None \<Rightarrow> s | Some (_, r) \<Rightarrow> s\<lparr>sa_outbound := r\<rparr>)"
  have t: "sa_wire t = sa_wire s" "sa_lastDeliveredSeq t = sa_lastDeliveredSeq s"
    by (simp_all add: t_def split: option.split prod.split)
  obtain s1 s2 where s1: "record_delivered (subject_String subject) (pb_seq prep)
        (pb_tsServer prep - pb_tsIngest prep) t = Some s1"
    and s2: "record_payload P (subject_String subject)
        \<lparr>se_Seq = pb_seq prep, se_TsServer = pb_tsServer prep, se_Venue = sub_Venue subject,
         se_Symbol = sub_Symbol subject, se_Channel = subject_channel subject, se_Payload = pb_payload prep\<rparr> s1 = Some s2"
    and r: "record_batch P subject preps s2 = Some s'"
    using "2.prems"(1) by (auto simp: Let_def t_def [symmetric] split: option.splits)
  have "sa_wire s' = sa_wire s2 \<and> int_read (sa_lastDeliveredSeq s') k =
    (if preps \<noteq> [] \<and> k = subject_String subject then pb_seq (last preps) else int_read (sa_lastDeliveredSeq s2) k)"
    by (rule "2.IH" [OF refl refl _ _ r]) (use s1 s2 in \<open>simp_all add: t_def\<close>)
  then show ?case
    using t delivered_effect [OF s1] payload_effect [OF s2] by simp
qed

lemma delivery_of_batch:
  "delivery_of k (batch_frame subject preps s) =
     (if k = subject_String subject then map (\<lambda>p. (pb_seq p, None)) preps else [])"
  by (simp add: batch_frame_def batch_item_def)

lemma linked_None: "linked_from p (map (\<lambda>x. (f x, None)) xs)"
  by (induction xs arbitrary: p) simp_all

lemma chain_batch_loop:
  assumes "batch_loop P subject preps n s = Some (s', k, e)" "chained s" "sc_hasConn (sa_cfg s)" "n \<le> length preps"
  shows "chained s'"
  using assms(1)
proof (cases rule: batch_loop_cases)
  case same
  then show ?thesis using assms(2) by simp
next
  case (fail f err)
  from raw_shape [OF fail(1) assms(3)] obtain n where "s' = s\<lparr>sa_writes := n, sa_wire := sa_wire s @ []\<rparr>"
    by (simp only: option.distinct if_False) blast
  then show ?thesis using chained_wire [OF assms(2)] by (simp only:)
next
  case (sent t)
  let ?f = "batch_frame subject (take k preps) s" and ?key = "subject_String subject"
  from raw_shape [OF sent(1) assms(3)] obtain n where t: "t = s\<lparr>sa_writes := n, sa_wire := sa_wire s @ [?f]\<rparr>"
    by (simp only: if_True refl) blast
  have ne: "take k preps \<noteq> []" using sent(3,4) assms(4) by (cases preps) auto
  show ?thesis
  proof (rule chain_append [OF assms(2), of ?key ?f])
    show "linked_from (last_seq 0 (deliveries ?key (sa_wire s))) (delivery_of ?key ?f)"
      by (simp add: delivery_of_batch linked_None)
    show "sa_wire s' = sa_wire s @ [?f]" using batch_effect [OF sent(2)] t by simp
    show "\<forall>k. int_read (sa_lastDeliveredSeq s') k =
      (if k = ?key then fst (last (delivery_of ?key ?f)) else int_read (sa_lastDeliveredSeq s) k)"
      using batch_effect [OF sent(2)] t ne by (simp add: delivery_of_batch last_map)
  qed (use ne in \<open>simp_all add: delivery_of_batch\<close>)
qed

lemma chain_batch:
  assumes "writeDeliveryBatchFromQueue P now maxItems s = Some (s', k, e)" "chained s" "sc_hasConn (sa_cfg s)"
  shows "chained s'"
  using assms(1)
proof (cases rule: batch_cases)
  case (retried subject)
  then show ?thesis using quiet_chained [OF quiet_retry assms(2)] by simp
next
  case (loop subject t preps)
  have "chained t" "sa_cfg t = sa_cfg s"
    using quiet_chained [OF quiet_retry [OF loop(1)] assms(2)] quiet_retry [OF loop(1)] by (simp_all add: quiet_def)
  then show ?thesis using chain_batch_loop [OF loop(2)] assms(3) by simp
qed (use assms(2) in simp)

lemma chain_flush_one:
  assumes "flush_one P now s = Some (s', out)" "chained s" "sc_hasConn (sa_cfg s)" "\<not> sc_PreferProto (sa_cfg s)"
  shows "chained s'"
proof (cases "dr_PopFront zero_event (sa_outbound s)")
  case None
  then show ?thesis using assms by (auto simp: flush_one_def chained_def)
next
  case (Some p)
  obtain evt r where p: "p = (evt, r)" by (cases p)
  obtain t e where w: "writeDeliveryEvent P now evt (s\<lparr>sa_outbound := r\<rparr>) = Some (t, e)"
    using assms(1) Some p by (auto simp: flush_one_def split: option.splits)
  have "chained (s\<lparr>sa_outbound := r\<rparr>)" using assms(2) by (simp add: chained_def)
  then have "chained t" using chain_event [OF w] assms(3,4) by simp
  then show ?thesis
    using assms(1) Some p w quiet_chained [OF quiet_close] by (cases e) (auto simp: flush_one_def)
qed

lemma chain_flush_step:
  assumes "flush_step P now n s = Some (s', out)" "chained s" "sc_hasConn (sa_cfg s)" "\<not> sc_PreferProto (sa_cfg s)"
    "dr_inv (sa_outbound s)"
  shows "chained s'"
proof (cases "HasBatching (sa_features s)")
  case False
  then show ?thesis using assms chain_flush_one by (auto simp: flush_step_def)
next
  case True
  then obtain t k e where b: "writeDeliveryBatchFromQueue P now n s = Some (t, k, e)"
    using assms(1,4) by (auto simp: flush_step_def split: option.splits)
  have t: "chained t" "sa_cfg t = sa_cfg s"
    using chain_batch [OF b assms(2,3)] drained_batch [OF b assms(5)] by (simp_all add: drained_def steady_def)
  show ?thesis
    using assms(1,3,4) True b t chain_flush_one [of P now t s' out] quiet_chained [OF quiet_close t(1)]
    by (cases e) (auto simp: flush_step_def split: if_splits)
qed

lemma chain_flush_loop:
  assumes "flush_loop P now n s = Some s'" "chained s" "sc_hasConn (sa_cfg s)" "\<not> sc_PreferProto (sa_cfg s)"
    "dr_inv (sa_outbound s)"
  shows "chained s'"
  using assms
proof (induction P now n s arbitrary: s' rule: flush_loop.induct)
  case (1 P now n s)
  show ?case
  proof (cases "n = 0")
    case True
    then show ?thesis using "1.prems" by (subst (asm) flush_loop.simps) (auto simp: chained_def split: if_splits)
  next
    case False
    then obtain t out where st: "flush_step P now n s = Some (t, out)"
      using "1.prems"(1) by (subst (asm) flush_loop.simps) (auto split: option.splits)
    have t: "chained t" using chain_flush_step [OF st "1.prems"(2-5)] .
    show ?thesis
    proof (cases out)
      case None
      then show ?thesis using t "1.prems"(1) False st by (subst (asm) flush_loop.simps) simp
    next
      case (Some k)
      have "drained (Suc k) s t"
        using flush_step_outcome [OF st "1.prems"(5)] False Some by (simp add: flush_outcome_def)
      then have "sa_cfg t = sa_cfg s" "dr_inv (sa_outbound t)" by (simp_all add: drained_def steady_def)
      moreover have "flush_loop P now (n - Suc k) t = Some s'"
        using "1.prems"(1) False st Some by (subst (asm) flush_loop.simps) simp
      ultimately show ?thesis using "1.IH" [OF False st refl Some] t "1.prems" by simp
    qed
  qed
qed

section \<open>Lemmas: runs\<close>

lemma scheduled_calm: "calm s s' \<Longrightarrow> scheduled c h s \<Longrightarrow> scheduled c h s'"
  by (auto simp: calm_def scheduled_def)

lemma scheduled_enqueue:
  assumes "scheduled c h s"
  shows "scheduled c h (enqueueDelivery P evt s)"
proof -
  have "enqueued s evt (enqueueDelivery P evt s)" using enqueue_effect assms by (simp add: scheduled_def)
  then show ?thesis using assms by (auto simp: enqueued_def scheduled_def awake_def held_def split: if_splits)
qed

lemma scheduled_flush:
  assumes "scheduled c h s" "flushOutbound P now s = Some s'" "h < flushes s"
  shows "scheduled c (Suc h) s'"
proof -
  have "flushed wsFlushBatchSize s s'" using flush_effect assms by (simp add: scheduled_def)
  then show ?thesis using assms(1,3) by (auto simp: flushed_def scheduled_def split: if_splits)
qed

lemma run_scheduled:
  assumes "session_run P s0 h s" "scheduled c 0 s0"
  shows "scheduled c h s"
  using assms(1)
proof (induction rule: session_run.induct)
  case start
  then show ?case by (rule assms(2))
next
  case (message h s msg now s')
  let ?t = "session_ensureDefaults s"
  have t: "scheduled c h ?t" using scheduled_calm [OF calm_defaults message.IH] .
  have r: "session_handle P now msg ?t = Some s'" using message.hyps by (simp add: session_Receive_def)
  show ?case
  proof (cases "\<exists>evt. msg = Delivery evt")
    case True
    then show ?thesis using r scheduled_enqueue [OF t] by auto
  next
    case False
    then show ?thesis using calm_handle [OF r message.hyps(2)] scheduled_calm t by blast
  qed
next
  case (flush h s now s')
  have "flushes (session_ensureDefaults s) = flushes s" using calm_defaults by (simp add: calm_def)
  then show ?case
    using flush.hyps scheduled_flush [OF scheduled_calm [OF calm_defaults flush.IH]]
    by (simp add: session_Receive_def)
qed

lemma run_chained:
  assumes "session_run P s0 h s" "scheduled c 0 s0" "chained s0" "sc_hasConn (sa_cfg s0)" "\<not> sc_PreferProto (sa_cfg s0)"
  shows "chained s \<and> sc_hasConn (sa_cfg s) \<and> \<not> sc_PreferProto (sa_cfg s)"
  using assms(1)
proof (induction rule: session_run.induct)
  case start
  then show ?case using assms by simp
next
  case (message h s msg now s')
  let ?t = "session_ensureDefaults s"
  have t: "chained ?t \<and> sc_hasConn (sa_cfg ?t) \<and> \<not> sc_PreferProto (sa_cfg ?t)" 
    using calm_defaults [of s] message.IH by (simp add: calm_def)
  have r: "session_handle P now msg ?t = Some s'" using message.hyps by (simp add: session_Receive_def)
  have inv: "dr_inv (sa_outbound ?t)"
    using scheduled_calm [OF calm_defaults run_scheduled [OF message.hyps(1) assms(2)]] by (simp add: scheduled_def)
  show ?case
  proof (cases "\<exists>evt. msg = Delivery evt")
    case True
    then show ?thesis using r t enqueue_effect [OF inv] by (auto simp: enqueued_def held_def)
  next
    case False
    then show ?thesis using calm_handle [OF r message.hyps(2)] t by (simp add: calm_def)
  qed
next
  case (flush h s now s')
  let ?t = "session_ensureDefaults s"
  have t: "chained ?t \<and> sc_hasConn (sa_cfg ?t) \<and> \<not> sc_PreferProto (sa_cfg ?t)"
    using calm_defaults [of s] flush.IH by (simp add: calm_def)
  have r: "flushOutbound P now ?t = Some s'" using flush.hyps by (simp add: session_Receive_def)
  have inv: "dr_inv (sa_outbound ?t)"
    using scheduled_calm [OF calm_defaults run_scheduled [OF flush.hyps(1) assms(2)]] by (simp add: scheduled_def)
  have "sa_cfg s' = sa_cfg ?t" using flush_effect [OF r inv] by (simp add: flushed_def)
  moreover have "chained s'"
    using r t chain_flush_loop [OF _ _ _ _ inv] by (auto simp: flushOutbound_def chained_def split: if_splits)
  ultimately show ?case using t by simp
qed

lemma run_limited:
  assumes "session_run P s0 h s" "scheduled c 0 s0" "limited s0"
  shows "limited s \<and> sa_limits s = sa_limits s0"
  using assms(1)
proof (induction rule: session_run.induct)
  case start
  then show ?case using assms(3) by simp
next
  case (message h s msg now s')
  let ?t = "session_ensureDefaults s"
  have t: "limited ?t \<and> sa_limits ?t = sa_limits s0" "dr_inv (sa_outbound ?t)"
    using calm_defaults [of s] message.IH run_scheduled [OF message.hyps(1) assms(2)] by (simp_all add: calm_def scheduled_def)
  have r: "session_handle P now msg ?t = Some s'" using message.hyps by (simp add: session_Receive_def)
  show ?case
  proof (cases "\<exists>evt. msg = Delivery evt")
    case True
    then show ?thesis using r t enqueue_effect [OF t(2)] by (auto simp: enqueued_def held_def limited_def)
  next
    case False
    then show ?thesis using calm_handle [OF r message.hyps(2)] t by (simp add: calm_def)
  qed
next
  case (flush h s now s')
  let ?t = "session_ensureDefaults s"
  have t: "limited ?t \<and> sa_limits ?t = sa_limits s0" "dr_inv (sa_outbound ?t)"
    using calm_defaults [of s] flush.IH run_scheduled [OF flush.hyps(1) assms(2)] by (simp_all add: calm_def scheduled_def)
  then show ?case using flush.hyps flush_effect [OF _ t(2)] by (auto simp: session_Receive_def flushed_def limited_def)
qed

lemma limited_new: "limited (NewSessionActor cfg newID pid now wireCache)"
  by (simp add: limited_def NewSessionActor_def NewSession_def Let_def ses_wf_def within_limits_def ses_Subscriptions_def
      SignalSubscriptionCount_def sess_symbols_def)

lemma steps_run:
  assumes "session_run P s0 h s" "steps_ok P msgs h s"
  shows "session_run P s0 (h + flush_count msgs) (the (session_steps P msgs s))"
  using assms
proof (induction P msgs h s rule: steps_ok.induct)
  case (1 P h s)
  then show ?case by simp
next
  case (2 P now msg msgs h s)
  obtain t where t: "session_Receive P now msg s = Some t"
    and ok: "steps_ok P msgs (h + (if msg = FlushOutbound then 1 else 0)) t"
    using "2.prems"(2) by (auto split: option.splits)
  have "session_run P s0 (h + (if msg = FlushOutbound then 1 else 0)) t"
    using session_run.message [OF "2.prems"(1) _ t] session_run.flush [OF "2.prems"(1)] t "2.prems"(2) by auto
  from "2.IH" [OF t this ok] show ?case by (simp add: t add.assoc)
qed

lemma scheduled_new: "scheduled (nat (el_OutboundQueueSize (NewEffectiveLimits cfg))) 0 (NewSessionActor cfg newID pid now wireCache)"
  by (simp add: scheduled_def NewSessionActor_def Let_def flushes_def newDeliveryRing_def NewEffectiveLimits_def
      dr_inv_def dr_view_def ring_view_def)

lemma chained_new: "chained (NewSessionActor cfg newID pid now wireCache)"
  by (simp add: chained_def NewSessionActor_def Let_def int_read_def map_read_def)

section \<open>Properties\<close>

text \<open>
  Property C7. An event is never left in the queue of an open session without a flush on its way. In every
  run of the actor the flush messages that it has sent to itself and not handled yet are exactly one when
  it is flushing and none otherwise, a queue that is not empty means that it is flushing, and the queue
  never holds more than its configured capacity.
\<close>

theorem session_flush_scheduled:
  assumes "session_run P (NewSessionActor cfg newID pid now0 wireCache) handled s" "\<not> sa_closed s"
  shows "flushes s = handled + (if sa_flushing s then 1 else 0) \<and> (queue s \<noteq> [] \<longrightarrow> sa_flushing s) \<and>
    int (length (queue s)) \<le> el_OutboundQueueSize (NewEffectiveLimits cfg)"
proof -
  have "scheduled (nat (el_OutboundQueueSize (NewEffectiveLimits cfg))) handled s"
    using run_scheduled [OF assms(1) scheduled_new] .
  then show ?thesis using assms(2) by (auto simp: scheduled_def dr_inv_def NewEffectiveLimits_def)
qed

theorem session_flush_scheduled_witness:
  "let s = the (session_steps demo_ports [(1, Delivery (demo_event ''marketdata.trade'' 7))] (demo_session '''' 2 0)) in
   map (\<lambda>e. env_Seq (de_Env e)) (queue s) = [7] \<and> flushes s = 0 + (if sa_flushing s then 1 else 0)"
proof -
  let ?s = "the (session_steps demo_ports [(1, Delivery (demo_event ''marketdata.trade'' 7))] (demo_session '''' 2 0))"
  have "session_Receive demo_ports 1 (Delivery (demo_event ''marketdata.trade'' 7)) (demo_session '''' 2 0) = Some ?s"
    by (simp add: session_Receive_def)
  then have "session_run demo_ports (demo_session '''' 2 0) 0 ?s"
    by (rule session_run.message [OF session_run.start, rotated]) simp
  moreover have "\<not> sa_closed ?s" "map (\<lambda>e. env_Seq (de_Env e)) (queue ?s) = [7]" by code_simp+
  ultimately show ?thesis
    using session_flush_scheduled [of demo_ports "demo_cfg '''' 2 0" "''s''" "''p''" 0 "NewSnapshotWireCache 0 0" 0 ?s]
    by (simp only: Let_def demo_session_def) simp
qed



text \<open>
  Property C11. The subscriptions of a session stay within the limits that its greeting announced. In every
  run, whatever the client asks for, the session holds at most the configured number of
  subscriptions, of signal subscriptions, and of different symbols.
\<close>

theorem session_subscription_limits:
  assumes "session_run P (NewSessionActor cfg newID pid now0 wireCache) handled s"
  shows "within_limits (NewEffectiveLimits cfg) (sa_session s)"
proof -
  have "sa_limits (NewSessionActor cfg newID pid now0 wireCache) = NewEffectiveLimits cfg"
    by (simp add: NewSessionActor_def Let_def)
  then show ?thesis using run_limited [OF assms scheduled_new limited_new] by (metis limited_def)
qed

text \<open>A client that may hold two subscriptions asks for three.\<close>

theorem session_subscription_limits_witness:
  "let s = the (session_steps demo_ports
       [(1, InboundText ''subscribe marketdata.trade/binance/BTC/raw''),
        (1, InboundText ''subscribe marketdata.trade/binance/ETH/raw''),
        (1, InboundText ''subscribe marketdata.trade/binance/SOL/raw'')] (demo_session '''' 2 0)) in
   length (ses_Subscriptions (sa_session s)) = 2 \<and> within_limits (NewEffectiveLimits (demo_cfg '''' 2 0)) (sa_session s)"
proof -
  let ?msgs = "[(1 :: int, InboundText ''subscribe marketdata.trade/binance/BTC/raw''),
        (1, InboundText ''subscribe marketdata.trade/binance/ETH/raw''),
        (1, InboundText ''subscribe marketdata.trade/binance/SOL/raw'')]"
  let ?init = "demo_session '''' 2 0"
  let ?s = "the (session_steps demo_ports ?msgs ?init)"
  have "steps_ok demo_ports ?msgs 0 ?init" by code_simp
  then have "session_run demo_ports ?init (0 + flush_count ?msgs) ?s" by (rule steps_run [OF session_run.start])
  then have "within_limits (NewEffectiveLimits (demo_cfg '''' 2 0)) (sa_session ?s)"
    unfolding demo_session_def by (rule session_subscription_limits)
  moreover have "length (ses_Subscriptions (sa_session ?s)) = 2" by code_simp
  ultimately show ?thesis by (simp only: Let_def)
qed

end
