(* ===== verification/Session_Flush.thy ===== *)
theory Session_Flush
  imports Session_Run
begin

text \<open>
  Flushing makes progress: over a connection that refuses every write after it was closed, the handler of
  the flush message never writes to a nil map, and the flush messages of a session empty its queue.
\<close>

section \<open>Specification\<close>

text \<open>
  The maps of the session exist while it is open; once it is closed, the maps are nil and its connection is
  closed too. (A message after that finds the maps made again by \<open>ensureDefaults\<close>; a flush of a closed
  session then ends at once.)
\<close>

definition sane :: "SessionActor \<Rightarrow> bool" where
  "sane s \<longleftrightarrow> sc_hasConn (sa_cfg s) \<and>
     (if sa_closed s
      then sa_connClosed s \<and> sa_lastDeliveredSeq s = None \<and> sa_deferredSnapshotSubjects s = None
      else sa_lastSnapshot s \<noteq> None \<and> sa_snapshotSeq s \<noteq> None \<and> sa_lastDeliveredSeq s \<noteq> None \<and>
           sa_deferredSnapshotSubjects s \<noteq> None)"

definition keeps :: "SessionActor \<Rightarrow> SessionActor \<Rightarrow> bool" where
  "keeps s s' \<longleftrightarrow> (sane s \<longrightarrow> sane s')"

definition returns :: "(SessionActor \<times> 'a) option \<Rightarrow> bool" where
  "returns r \<longleftrightarrow> (case r of None \<Rightarrow> False | Some p \<Rightarrow> sane (fst p))"

text \<open>What the connection promises: after it was closed, every write fails.\<close>

definition refuses_closed :: "ports \<Rightarrow> bool" where
  "refuses_closed P \<longleftrightarrow> (\<forall>n. \<not> pt_accepts P True n)"

section \<open>Lemmas: the maps of an open session\<close>

lemma returns_simps [simp]: "returns (Some p) = sane (fst p)" "\<not> returns None"
  by (simp_all add: returns_def)

lemma returnsE: "returns r \<Longrightarrow> (\<And>s x. r = Some (s, x) \<Longrightarrow> sane s \<Longrightarrow> thesis) \<Longrightarrow> thesis"
  by (cases r) (auto simp: returns_def)

lemma keeps_refl [simp]: "keeps s s"
  by (simp add: keeps_def)

lemma keeps_trans: "keeps t u \<Longrightarrow> keeps s t \<Longrightarrow> keeps s u"
  by (simp add: keeps_def)

lemma keeps_fields:
  "keeps s (s\<lparr>sa_wireCache := b\<rparr>)" "keeps s (s\<lparr>sa_dropCount := n\<rparr>)" "keeps s (s\<lparr>sa_bpDropSamples := l\<rparr>)"
  "keeps s (s\<lparr>sa_bpDropSampleDrops := n\<rparr>)" "keeps s (s\<lparr>sa_bpDropSampleWindow := n\<rparr>)"
  "keeps s (s\<lparr>sa_outbound := r\<rparr>)"
  by (simp_all add: keeps_def sane_def)

lemma keeps_samples: "keeps s (flushBackpressureDropSamples force s)"
  unfolding flushBackpressureDropSamples_def Let_def by (auto intro!: keeps_fields [THEN keeps_trans])

lemma keeps_sample: "keeps s (recordBackpressureDropSample reason channel priority s)"
  unfolding recordBackpressureDropSample_def Let_def
  by (auto split: option.split intro!: keeps_fields [THEN keeps_trans] keeps_samples [THEN keeps_trans])

lemma keeps_close: "keeps s (closeSession s)"
  by (auto simp: keeps_def sane_def closeSession_def unregister_on_close_def flushBackpressureDropSamples_def Let_def)

lemma keeps_shape: "keeps s (s\<lparr>sa_writes := n, sa_wire := w\<rparr>)"
  by (simp add: keeps_def sane_def)

lemma keeps_writes:
  assumes "writeRawMessage P f s = (s', e) \<or> writeJSONDirect P f s = (s', e)"
  shows "keeps s s'"
proof (cases "sc_hasConn (sa_cfg s)")
  case True
  from write_shape [OF assms True] obtain n where
    "s' = s\<lparr>sa_writes := n, sa_wire := sa_wire s @ (if e = None then [f] else [])\<rparr>" by blast
  then show ?thesis by (simp only: keeps_shape)
next
  case False
  then show ?thesis by (simp add: keeps_def sane_def)
qed

lemma keeps_raw: "keeps s (fst (writeRawMessage P f s))" and keeps_direct: "keeps s (fst (writeJSONDirect P f s))"
  using keeps_writes [of P f s] by (metis prod.collapse)+

lemma keeps_limits: "keeps s (fst (writeJSONRawWithLimits P f n s))"
  by (simp add: writeJSONRawWithLimits_def keeps_raw split_beta)

lemma keeps_json: "keeps s (writeJSON P f s)"
  using keeps_direct [of s P f] keeps_close [THEN keeps_trans]
  by (auto simp: writeJSON_def split_beta split: option.split)

lemma keeps_problem: "keeps s (writeProblem P op r p s)"
  by (simp add: writeProblem_def split_beta keeps_json)

lemmas keeps_steps = keeps_fields [THEN keeps_trans] keeps_samples [THEN keeps_trans] keeps_sample [THEN keeps_trans]
  keeps_close [THEN keeps_trans] keeps_problem [THEN keeps_trans] keeps_json [THEN keeps_trans]
  keeps_limits [THEN keeps_trans]

lemma keeps_drop: "keeps s (fst (onDrop P reason evt s))"
  unfolding onDrop_def Let_def fst_conv if_distrib [of fst]
  by (auto intro!: keeps_steps)

lemma bump_open:
  assumes "sane s" "\<not> sa_closed s"
  shows "\<exists>s'. bump_snapshotSeq key s = Some s' \<and> sane s'"
proof -
  obtain m where "sa_snapshotSeq s = Some m" using assms by (auto simp: sane_def)
  then have "bump_snapshotSeq key s = Some (s\<lparr>sa_snapshotSeq := Some (AList.update key (int_read (sa_snapshotSeq s) key + 1) m)\<rparr>)"
    by (simp add: bump_snapshotSeq_def map_set_def)
  moreover have "sane (s\<lparr>sa_snapshotSeq := Some l\<rparr>)" for l using assms by (simp add: sane_def)
  ultimately show ?thesis by blast
qed

lemma keeps_fits: "keeps s (fst (write_if_fits P f s))"
  by (auto simp: write_if_fits_def intro!: keeps_steps keeps_drop [THEN keeps_trans])

lemma keeps_build: "keeps s (fst (build_hot_cached P now subject payload s))"
  by (auto simp: build_hot_cached_def Let_def split_beta split: sum.split option.split
      intro!: keeps_steps keeps_drop [THEN keeps_trans])

lemma keeps_cached: "keeps s (fst (emit_hot_cached P now subject payload s))"
  by (auto simp: emit_hot_cached_def Let_def split_beta split: option.split
      intro!: keeps_steps keeps_build [THEN keeps_trans])

lemma emit_open:
  assumes "sane s" "\<not> sa_closed s"
  shows "returns (emitSnapshot P now subject s)"
proof -
  obtain t where t: "bump_snapshotSeq (subject_String subject) s = Some t" "sane t"
    using bump_open [OF assms] by blast
  have "sane (fst (write_if_fits P f t))" for f using keeps_fits t(2) by (simp add: keeps_def)
  moreover have "sane (fst (emit_hot_cached P now subject payload s))" for payload
    using keeps_cached assms(1) by (simp add: keeps_def)
  ultimately show ?thesis
    using t(1) assms(1) by (simp add: emitSnapshot_def emit_hot_uncached_def emit_last_def Let_def split: option.split)
qed

lemma retry_open:
  assumes "sane s"
  shows "\<exists>s'. retry_deferred P now subject s = Some s' \<and> sane s'"
proof (cases "map_read (sa_deferredSnapshotSubjects s) (subject_String subject)")
  case None
  then show ?thesis using assms by (simp add: retry_deferred_def)
next
  case (Some u)
  then have "\<not> sa_closed s" using assms by (auto simp: sane_def map_read_def)
  then have "returns (emitHotSnapshot P now subject s)"
    using emit_open [OF assms] assms by (simp add: emitHotSnapshot_def)
  then obtain t b where r: "emitHotSnapshot P now subject s = Some (t, b)" "sane t" by (rule returnsE)
  have "sane (t\<lparr>sa_deferredSnapshotSubjects := map_delete k (sa_deferredSnapshotSubjects t)\<rparr>)" if "sane t" for t k
    using that by (simp add: sane_def map_delete_def)
  then show ?thesis using Some r by (simp add: retry_deferred_def)
qed

section \<open>Lemmas: a flush returns\<close>

text \<open>A write that succeeds finds the session open.\<close>

lemma write_open:
  assumes "writeRawMessage P f s = (s', None) \<or> writeJSONDirect P f s = (s', None)" "sane s" "refuses_closed P"
  shows "\<not> sa_closed s' \<and> sane s'"
proof -
  have "sane s'" using keeps_writes [OF assms(1)] assms(2) by (simp add: keeps_def)
  moreover have "sa_closed s' \<longleftrightarrow> sa_closed s"
    using write_shape [OF assms(1)] assms(2) by (auto simp: sane_def)
  moreover have False if "sa_closed s"
  proof -
    have c: "sa_connClosed s" "sc_hasConn (sa_cfg s)" using that assms(2) by (simp_all add: sane_def)
    then have "snd (conn_write P f s) \<noteq> None" using assms(3) by (simp add: conn_write_def refuses_closed_def Let_def)
    then have "snd (writeRawMessage P f s) \<noteq> None" "snd (conn_WriteJSON P f s) \<noteq> None"
      using c by (simp_all add: writeRawMessage_def conn_WriteJSON_def split: sum.split)
    then have "snd (writeJSONDirect P f s) \<noteq> None"
      using c by (simp add: writeJSONDirect_def split_beta split: sum.split)
    then show False using assms(1) \<open>snd (writeRawMessage P f s) \<noteq> None\<close> by (metis snd_conv)
  qed
  ultimately show ?thesis by blast
qed

lemma delivered_open:
  assumes "sane s" "\<not> sa_closed s"
  shows "\<exists>s'. record_delivered key seq lag s = Some s' \<and> sane s' \<and> \<not> sa_closed s'"
proof -
  obtain m where "sa_lastDeliveredSeq s = Some m" using assms by (auto simp: sane_def)
  then have "record_delivered key seq lag s = Some (s\<lparr>sa_lastDeliveredSeq := Some (AList.update key seq m),
      sa_messagesOut := sa_messagesOut s + 1, sa_lastLagMs := lag\<rparr>)"
    by (simp add: record_delivered_def map_set_def)
  moreover have "sane (s\<lparr>sa_lastDeliveredSeq := Some l, sa_messagesOut := n, sa_lastLagMs := lag\<rparr>)" for l n
    using assms by (simp add: sane_def)
  ultimately show ?thesis using assms(2) by simp
qed

lemma payload_open:
  assumes "sane s" "\<not> sa_closed s"
  shows "\<exists>s'. record_payload P key entry s = Some s' \<and> sane s' \<and> \<not> sa_closed s'"
proof (cases "pt_valid P (se_Payload entry)")
  case True
  obtain m where "sa_lastSnapshot s = Some m" using assms by (auto simp: sane_def)
  then have "record_payload P key entry s = Some (s\<lparr>sa_lastSnapshot := Some (AList.update key entry m)\<rparr>)"
    using True by (simp add: record_payload_def map_set_def)
  moreover have "sane (s\<lparr>sa_lastSnapshot := Some l\<rparr>)" for l using assms by (simp add: sane_def)
  ultimately show ?thesis using assms(2) by simp
qed (use assms in \<open>simp add: record_payload_def\<close>)

lemma json_frame_returns:
  assumes "sane s" "refuses_closed P"
  shows "returns (write_json_frame P frame evt entry e1 e2 s)"
proof -
  have d: "sane (fst (onDrop P ''frame_too_large'' (Some evt) s))" using keeps_drop assms(1) by (simp add: keeps_def)
  show ?thesis
  proof (cases "pt_size P frame")
    case (Inl err)
    then show ?thesis using assms(1) by (simp add: write_json_frame_def)
  next
    case (Inr n)
    obtain c w where p: "planWireCompression P frame n s = (c, w)" by fastforce
    obtain s1 e where w: "(if c then writeRawMessage P frame s else writeJSONDirect P frame s) = (s1, e)" by fastforce
    then have w': "writeRawMessage P frame s = (s1, e) \<or> writeJSONDirect P frame s = (s1, e)" by (simp split: if_splits)
    have s1: "sane s1" using keeps_writes [OF w'] assms(1) by (simp add: keeps_def)
    show ?thesis
    proof (cases e)
      case (Some err)
      then show ?thesis using Inr p w d s1 by (simp add: write_json_frame_def Let_def)
    next
      case None
      then have "\<not> sa_closed s1" using write_open [of P frame s s1] w' assms by simp
      then obtain s2 where s2: "record_delivered (subject_String (de_Subject evt)) (se_Seq entry)
            (se_TsServer entry - env_TsIngest (de_Env evt)) s1 = Some s2" "sane s2" "\<not> sa_closed s2"
        using delivered_open [OF s1] by blast
      then obtain s3 where "record_payload P (subject_String (de_Subject evt)) entry s2 = Some s3" "sane s3"
        using payload_open by blast
      then show ?thesis using Inr p w d None s2 by (simp add: write_json_frame_def Let_def)
    qed
  qed
qed

lemma proto_returns:
  assumes "sane s" "refuses_closed P"
  shows "returns (write_proto_event P ts evt s)"
proof (cases "pt_marshalProto P (proto_envelope ts (de_Subject evt) (subject_channel (de_Subject evt))
    (int_read (sa_lastDeliveredSeq s) (subject_String (de_Subject evt))) (de_Env evt) s)")
  case (Inl p)
  then show ?thesis using assms(1) by (simp add: write_proto_event_def)
next
  case (Inr raw)
  have d: "sane (fst (onDrop P ''frame_too_large'' (Some evt) s))" using keeps_drop assms(1) by (simp add: keeps_def)
  obtain c w where p: "planWireCompression P (ProtoFrame raw) (int (length raw)) s = (c, w)" by fastforce
  obtain s1 e where w: "writeRawMessage P (ProtoFrame raw) s = (s1, e)" by fastforce
  have s1: "sane s1" using keeps_writes [OF disjI1 [OF w]] assms(1) by (simp add: keeps_def)
  show ?thesis
  proof (cases e)
    case (Some err)
    then show ?thesis using Inr p w d s1 by (simp add: write_proto_event_def Let_def)
  next
    case None
    then have "\<not> sa_closed s1" using write_open [of P "ProtoFrame raw" s s1] w assms by simp
    then obtain s2 where "record_delivered (subject_String (de_Subject evt)) (env_Seq (de_Env evt))
        (ts - env_TsIngest (de_Env evt)) s1 = Some s2" "sane s2"
      using delivered_open [OF s1] by blast
    then show ?thesis using Inr p w d None by (simp add: write_proto_event_def Let_def)
  qed
qed

lemma event_returns:
  assumes "sane s" "refuses_closed P"
  shows "returns (writeDeliveryEvent P now evt s)"
proof -
  obtain t where t: "retry_deferred P now (de_Subject evt) s = Some t" "sane t" using retry_open [OF assms(1)] by blast
  show ?thesis
    using t json_frame_returns [OF t(2) assms(2)] proto_returns [OF t(2) assms(2)]
    by (simp add: writeDeliveryEvent_def Let_def split: sum.split)
qed

lemma record_batch_open:
  assumes "sane s" "\<not> sa_closed s"
  shows "\<exists>s'. record_batch P subject preps s = Some s' \<and> sane s' \<and> \<not> sa_closed s'"
  using assms
proof (induction preps arbitrary: s)
  case Nil
  then show ?case by simp
next
  case (Cons prep preps)
  define t where "t = (case dr_PopFront zero_event (sa_outbound s) of None \<Rightarrow> s | Some (_, r) \<Rightarrow> s\<lparr>sa_outbound := r\<rparr>)"
  have t: "sane t" "\<not> sa_closed t"
    using Cons.prems by (simp_all add: t_def sane_def split: option.split prod.split)
  obtain s1 where s1: "record_delivered (subject_String subject) (pb_seq prep)
      (pb_tsServer prep - pb_tsIngest prep) t = Some s1" "sane s1" "\<not> sa_closed s1"
    using delivered_open [OF t] by blast
  obtain s2 where s2: "record_payload P (subject_String subject)
      \<lparr>se_Seq = pb_seq prep, se_TsServer = pb_tsServer prep, se_Venue = sub_Venue subject,
       se_Symbol = sub_Symbol subject, se_Channel = subject_channel subject, se_Payload = pb_payload prep\<rparr> s1 = Some s2"
      "sane s2" "\<not> sa_closed s2"
    using payload_open [OF s1(2,3)] by blast
  show ?case using Cons.IH [OF s2(2,3)] s1(1) s2(1) by (simp add: Let_def t_def [symmetric])
qed

lemma batch_loop_returns:
  assumes "sane s" "refuses_closed P"
  shows "returns (batch_loop P subject preps n s)"
proof (induction n)
  case 0
  then show ?case using assms(1) by simp
next
  case (Suc n)
  let ?f = "batch_frame subject (take (Suc n) preps) s"
  show ?case
  proof (cases "pt_size P ?f")
    case (Inl err)
    then show ?thesis using assms(1) by (simp add: Let_def)
  next
    case (Inr rawLen)
    obtain c w where p: "planWireCompression P ?f rawLen s = (c, w)" by fastforce
    obtain t e where w: "writeRawMessage P ?f s = (t, e)" by fastforce
    have t: "sane t" using keeps_writes [OF disjI1 [OF w]] assms(1) by (simp add: keeps_def)
    have r: "\<exists>s'. record_batch P subject (take (Suc n) preps) t = Some s' \<and> sane s'" if "e = None"
    proof -
      have "\<not> sa_closed t" using write_open [of P ?f s t] w that assms by simp
      then show ?thesis using record_batch_open [OF t] by blast
    qed
    show ?thesis using Suc.IH Inr p w t r assms(1) by (cases e) (auto simp: Let_def)
  qed
qed

lemma batch_returns:
  assumes "sane s" "refuses_closed P"
  shows "returns (writeDeliveryBatchFromQueue P now maxItems s)"
proof -
  define subject where "subject = de_Subject (dr_At 0 (sa_outbound s))"
  obtain t where t: "retry_deferred P now subject s = Some t" "sane t" using retry_open [OF assms(1)] by blast
  show ?thesis
    using t assms(1) batch_loop_returns [OF t(2) assms(2)]
    by (simp add: writeDeliveryBatchFromQueue_def Let_def subject_def split: sum.split)
qed

lemma flush_one_returns:
  assumes "sane s" "refuses_closed P"
  shows "returns (flush_one P now s)"
proof (cases "dr_PopFront zero_event (sa_outbound s)")
  case None
  then show ?thesis using assms(1) by (simp add: flush_one_def sane_def)
next
  case (Some p)
  obtain evt r where p: "p = (evt, r)" by (cases p)
  have "sane (s\<lparr>sa_outbound := r\<rparr>)" using assms(1) by (simp add: sane_def)
  then obtain t e where w: "writeDeliveryEvent P now evt (s\<lparr>sa_outbound := r\<rparr>) = Some (t, e)" "sane t"
    using event_returns assms(2) returnsE by metis
  then have "sane (closeSession t)" using keeps_close by (simp add: keeps_def)
  then show ?thesis using Some p w by (cases e) (simp_all add: flush_one_def)
qed

lemma flush_step_returns:
  assumes "sane s" "refuses_closed P"
  shows "returns (flush_step P now n s)"
proof -
  obtain t k e where b: "writeDeliveryBatchFromQueue P now n s = Some (t, k, e)" "sane t"
    using batch_returns [OF assms, of now n] by (auto elim!: returnsE)
  have "sane (closeSession t)" using keeps_close b(2) by (simp add: keeps_def)
  then show ?thesis
    using b flush_one_returns [OF b(2) assms(2)] flush_one_returns [OF assms]
    by (cases e) (simp_all add: flush_step_def)
qed

lemma flush_loop_returns:
  assumes "sane s" "refuses_closed P"
  shows "\<exists>s'. flush_loop P now n s = Some s'"
  using assms
proof (induction P now n s rule: flush_loop.induct)
  case (1 P now n s)
  show ?case
  proof (cases "n = 0")
    case True
    then show ?thesis by (subst flush_loop.simps) simp
  next
    case False
    obtain t out where st: "flush_step P now n s = Some (t, out)" "sane t"
      using flush_step_returns [OF "1.prems"] by (rule returnsE)
    show ?thesis
    proof (cases out)
      case None
      then show ?thesis using False st by (subst flush_loop.simps) simp
    next
      case (Some k)
      then have "\<exists>s'. flush_loop P now (n - Suc k) t = Some s'"
        using "1.IH" [OF False st(1) refl Some] st(2) "1.prems"(2) by blast
      then show ?thesis using False st Some by (subst flush_loop.simps) simp
    qed
  qed
qed

section \<open>Lemmas: the flush messages of a session\<close>

lemma flush_received:
  assumes "scheduled c h s" "sc_hasConn (sa_cfg s)" "refuses_closed P" "\<not> sa_closed s" "h < flushes s"
  shows "\<exists>s'. session_Receive P now FlushOutbound s = Some s' \<and> scheduled c (Suc h) s' \<and> sc_hasConn (sa_cfg s') \<and>
    (sa_closed s' \<or> queue s' = drop wsFlushBatchSize (queue s))"
proof -
  let ?t = "session_ensureDefaults s"
  note calm = calm_defaults [of s]
  have t: "scheduled c h ?t" using scheduled_calm [OF calm assms(1)] .
  have o: "\<not> sa_closed ?t" using assms(4) by (simp add: session_ensureDefaults_def)
  have "sane ?t" using assms(2,4) by (simp add: sane_def session_ensureDefaults_def or_empty_def split: option.split)
  then obtain s' where r: "flushOutbound P now ?t = Some s'"
    using flush_loop_returns assms(3) o by (simp add: flushOutbound_def) blast
  have "flushed wsFlushBatchSize ?t s'" using flush_effect [OF r] t by (simp add: scheduled_def)
  moreover have "h < flushes ?t" "queue ?t = queue s" "sc_hasConn (sa_cfg ?t)"
    using calm assms(2,5) by (simp_all add: calm_def)
  ultimately show ?thesis
    using r scheduled_flush [OF t r] by (auto simp: session_Receive_def flushed_def)
qed

lemma run_conn:
  assumes "session_run P s0 h s" "scheduled c 0 s0" "sc_hasConn (sa_cfg s0)"
  shows "sc_hasConn (sa_cfg s)"
  using assms(1)
proof (induction rule: session_run.induct)
  case start
  then show ?case by (rule assms(3))
next
  case (message h s msg now s')
  let ?t = "session_ensureDefaults s"
  have t: "sc_hasConn (sa_cfg ?t)" "dr_inv (sa_outbound ?t)"
    using calm_defaults [of s] message.IH run_scheduled [OF message.hyps(1) assms(2)] by (simp_all add: calm_def scheduled_def)
  have r: "session_handle P now msg ?t = Some s'" using message.hyps by (simp add: session_Receive_def)
  show ?case
  proof (cases "\<exists>evt. msg = Delivery evt")
    case True
    then show ?thesis using r t enqueue_effect [OF t(2)] by (auto simp: enqueued_def held_def)
  next
    case False
    then show ?thesis using calm_handle [OF r message.hyps(2)] t by (simp add: calm_def)
  qed
next
  case (flush h s now s')
  let ?t = "session_ensureDefaults s"
  have t: "sc_hasConn (sa_cfg ?t)" "dr_inv (sa_outbound ?t)"
    using calm_defaults [of s] flush.IH run_scheduled [OF flush.hyps(1) assms(2)] by (simp_all add: calm_def scheduled_def)
  then show ?case using flush.hyps flush_effect [OF _ t(2)] by (auto simp: session_Receive_def flushed_def)
qed

lemma drains:
  assumes "scheduled c h s" "sc_hasConn (sa_cfg s)" "refuses_closed P"
  shows "\<exists>k s'. k \<le> (length (queue s) + 31) div 32 \<and>
    steps_ok P (map (\<lambda>i. (clock i, FlushOutbound)) [0..<k]) h s \<and>
    session_steps P (map (\<lambda>i. (clock i, FlushOutbound)) [0..<k]) s = Some s' \<and> (sa_closed s' \<or> queue s' = [])"
  using assms
proof (induction "length (queue s)" arbitrary: s h clock rule: less_induct)
  case less
  show ?case
  proof (cases "sa_closed s \<or> queue s = []")
    case True
    then show ?thesis by (intro exI [of _ 0] exI [of _ s]) simp
  next
    case False
    then have "h < flushes s" using less.prems(1) by (auto simp: scheduled_def)
    then obtain t where t: "session_Receive P (clock 0) FlushOutbound s = Some t" "scheduled c (Suc h) t"
        "sc_hasConn (sa_cfg t)" "sa_closed t \<or> queue t = drop 32 (queue s)"
      using flush_received [OF less.prems] False unfolding wsFlushBatchSize_def by blast
    let ?msgs = "\<lambda>k. map (\<lambda>i. (clock (Suc i), FlushOutbound)) [0..<k]"
    have "\<exists>k s'. k \<le> (length (queue s) - 1) div 32 \<and> steps_ok P (?msgs k) (Suc h) t \<and>
        session_steps P (?msgs k) t = Some s' \<and> (sa_closed s' \<or> queue s' = [])"
    proof (cases "sa_closed t")
      case True
      then show ?thesis by (intro exI [of _ 0] exI [of _ t]) simp
    next
      case still: False
      then have q: "queue t = drop 32 (queue s)" using t(4) by simp
      have "length (queue t) < length (queue s)" using q False by (cases "queue s") auto
      from less.hyps [OF this t(2,3) less.prems(3), of "\<lambda>i. clock (Suc i)"]
      obtain k s' where k: "k \<le> (length (queue t) + 31) div 32" "steps_ok P (?msgs k) (Suc h) t"
        "session_steps P (?msgs k) t = Some s'" "sa_closed s' \<or> queue s' = []" by blast
      have "length (queue t) = length (queue s) - 32" using q by (metis length_drop)
      then have "(length (queue t) + 31) div 32 \<le> (length (queue s) - 1) div 32" by linarith
      then show ?thesis using k order_trans by blast
    qed
    then obtain k s' where k: "k \<le> (length (queue s) - 1) div 32" "steps_ok P (?msgs k) (Suc h) t"
        "session_steps P (?msgs k) t = Some s'" "sa_closed s' \<or> queue s' = []" by blast
    have m: "map (\<lambda>i. (clock i, FlushOutbound)) [0..<Suc k] = (clock 0, FlushOutbound) # ?msgs k"
      by (simp add: upt_conv_Cons map_Suc_upt [symmetric] del: upt_Suc)
    have "0 < length (queue s)" using False by (metis length_greater_0_conv)
    then have "Suc k \<le> (length (queue s) + 31) div 32" using k(1) by linarith
    then show ?thesis
      using t(1) k \<open>h < flushes s\<close> by (intro exI [of _ "Suc k"] exI [of _ s']) (simp only: m, simp)
  qed
qed

section \<open>Properties\<close>

text \<open>
  Property C3. Flushing makes progress and never crashes. Take any state that an open session can reach,
  over a connection that fails every write after it was closed. At whatever times its own flush
  messages are handled, each of them returns (no write to a nil map), each was sent by the session
  itself and not handled before, and at most one for every 32 queued events is needed until the queue is
  empty or the session has closed itself.
\<close>

theorem session_flush_drains:
  assumes "session_run P (NewSessionActor cfg newID pid now0 wireCache) handled s" "sc_hasConn cfg" "refuses_closed P"
  shows "\<exists>k s'. k \<le> (length (queue s) + 31) div 32 \<and>
    steps_ok P (map (\<lambda>i. (clock i, FlushOutbound)) [0..<k]) handled s \<and>
    session_steps P (map (\<lambda>i. (clock i, FlushOutbound)) [0..<k]) s = Some s' \<and> (sa_closed s' \<or> queue s' = [])"
proof -
  have "sc_hasConn (sa_cfg (NewSessionActor cfg newID pid now0 wireCache))"
    using assms(2) by (simp add: NewSessionActor_def Let_def)
  then have "sc_hasConn (sa_cfg s)" using run_conn [OF assms(1) scheduled_new] by blast
  then show ?thesis using drains [OF run_scheduled [OF assms(1) scheduled_new] _ assms(3)] by blast
qed

theorem session_flush_drains_witness:
  "let s = the (session_steps demo_ports (map (\<lambda>i. (1, Delivery (demo_event ''marketdata.trade'' i))) [1, 2, 3])
       (demo_session '''' 50 0)) in
   length (queue s) = 3 \<and>
   (\<exists>k s'. k \<le> 1 \<and> session_steps demo_ports (map (\<lambda>i. (int i, FlushOutbound)) [0..<k]) s = Some s' \<and>
      (sa_closed s' \<or> queue s' = []))"
proof -
  let ?msgs = "map (\<lambda>i. (1, Delivery (demo_event ''marketdata.trade'' i))) [1, 2, 3]"
  let ?init = "demo_session '''' 50 0"
  let ?s = "the (session_steps demo_ports ?msgs ?init)"
  have "steps_ok demo_ports ?msgs 0 ?init" by code_simp
  then have "session_run demo_ports ?init (0 + flush_count ?msgs) ?s" by (rule steps_run [OF session_run.start])
  then have "session_run demo_ports (NewSessionActor (demo_cfg '''' 50 0) ''s'' ''p'' 0 (NewSnapshotWireCache 0 0))
      (0 + flush_count ?msgs) ?s" by (simp only: demo_session_def)
  moreover have "sc_hasConn (demo_cfg '''' 50 0)" "refuses_closed demo_ports"
    by (simp_all add: demo_cfg_def demo_ports_def refuses_closed_def)
  ultimately have "\<exists>k s'. k \<le> (length (queue ?s) + 31) div 32 \<and>
      session_steps demo_ports (map (\<lambda>i. (int i, FlushOutbound)) [0..<k]) ?s = Some s' \<and> (sa_closed s' \<or> queue s' = [])"
    using session_flush_drains [where clock = int] by blast
  moreover have "length (queue ?s) = 3" by code_simp
  ultimately show ?thesis by (simp only: Let_def) simp
qed

end
