(* ===== verification/Session_Order.thy ===== *)
theory Session_Order
  imports Session_Flush "HOL-Library.Sublist"
begin

text \<open>
  What the client of a session receives for a subject is a subsequence of what the router sent to the
  session for it: nothing is invented, repeated or reordered on the way through the queue, the drop
  policies, the batches and the connection.
\<close>

section \<open>Specification\<close>

text \<open>The numbers of the events of a subject, in a list of events and on the wire.\<close>

definition seqs :: "string \<Rightarrow> DeliveryEvent list \<Rightarrow> int list" where
  "seqs key evts = map (\<lambda>e. env_Seq (de_Env e)) (filter (\<lambda>e. subject_String (de_Subject e) = key) evts)"

definition wire_seqs :: "string \<Rightarrow> SessionActor \<Rightarrow> int list" where
  "wire_seqs key s = map fst (deliveries key (sa_wire s))"

text \<open>The events that a sequence of messages brings.\<close>

fun received :: "(int \<times> session_msg) list \<Rightarrow> DeliveryEvent list" where
  "received [] = []"
| "received ((now, msg) # msgs) = (case msg of Delivery evt \<Rightarrow> [evt] | _ \<Rightarrow> []) @ received msgs"

text \<open>A step that may write the first \<open>k\<close> events of the queue, in their order.\<close>

definition fed :: "nat \<Rightarrow> SessionActor \<Rightarrow> SessionActor \<Rightarrow> bool" where
  "fed k s s' \<longleftrightarrow>
     (\<forall>key. \<exists>ns. wire_seqs key s' = wire_seqs key s @ ns \<and> subseq ns (seqs key (take k (queue s))))"

text \<open>What one event adds to the wire: its number, or nothing.\<close>

definition adds :: "DeliveryEvent \<Rightarrow> SessionActor \<Rightarrow> SessionActor \<Rightarrow> bool" where
  "adds evt s s' \<longleftrightarrow>
     (\<forall>key. \<exists>ns. wire_seqs key s' = wire_seqs key s @ ns \<and> subseq ns (seqs key [evt]))"

definition ordered :: "DeliveryEvent list \<Rightarrow> SessionActor \<Rightarrow> bool" where
  "ordered evts s \<longleftrightarrow> dr_inv (sa_outbound s) \<and>
     (\<forall>key. subseq (wire_seqs key s) (seqs key evts) \<and>
        (\<not> sa_closed s \<longrightarrow> subseq (wire_seqs key s @ seqs key (queue s)) (seqs key evts)))"

section \<open>Lemmas: what one flush writes\<close>

lemma seqs_append [simp]: "seqs key (xs @ ys) = seqs key xs @ seqs key ys"
  by (simp add: seqs_def)

lemma seqs_subseq: "subseq xs ys \<Longrightarrow> subseq (seqs key xs) (seqs key ys)"
  unfolding seqs_def by (intro subseq_map subseq_filter)

lemma fed_same: "(\<And>key. deliveries key (sa_wire s') = deliveries key (sa_wire s)) \<Longrightarrow> fed k s s'"
  by (auto simp: fed_def wire_seqs_def)

lemma quiet_fed: "quiet s s' \<Longrightarrow> fed k s s'"
  by (rule fed_same) (simp add: quiet_def)

lemma fed_trans:
  assumes "fed k s t" "fed j t u" "queue t = drop k (queue s)"
  shows "fed (k + j) s u"
  unfolding fed_def
proof
  fix key
  obtain ns ms where "wire_seqs key t = wire_seqs key s @ ns" "subseq ns (seqs key (take k (queue s)))"
      "wire_seqs key u = wire_seqs key t @ ms" "subseq ms (seqs key (take j (queue t)))"
    using assms(1,2) unfolding fed_def by meson
  then show "\<exists>ns. wire_seqs key u = wire_seqs key s @ ns \<and> subseq ns (seqs key (take (k + j) (queue s)))"
    using assms(3) by (intro exI [of _ "ns @ ms"]) (simp add: take_add list_emb_append_mono)
qed

lemma write_wire:
  assumes "writeRawMessage P f s = (s', e) \<or> writeJSONDirect P f s = (s', e)"
  shows "sa_wire s' = sa_wire s \<or> sa_wire s' = sa_wire s @ [f]"
proof (cases "sc_hasConn (sa_cfg s)")
  case True
  from write_shape [OF assms True] obtain n where
    "s' = s\<lparr>sa_writes := n, sa_wire := sa_wire s @ (if e = None then [f] else [])\<rparr>" by blast
  then show ?thesis by simp
next
  case False
  then have "s' = s" using assms write_noconn by (metis Pair_inject)
  then show ?thesis by simp
qed

lemma wire_append:
  assumes "sa_wire s' = sa_wire s \<or> sa_wire s' = sa_wire s @ [f]"
  shows "\<exists>ds. deliveries key (sa_wire s') = deliveries key (sa_wire s) @ ds \<and> ds \<in> {[], delivery_of key f}"
  using assms by auto

lemma adds_same: "(\<And>key. deliveries key (sa_wire s') = deliveries key (sa_wire s)) \<Longrightarrow> adds evt s s'"
  by (auto simp: adds_def wire_seqs_def)

lemma adds_wire: "adds evt t u \<Longrightarrow> (\<And>key. deliveries key (sa_wire t) = deliveries key (sa_wire s)) \<Longrightarrow> adds evt s u"
  by (simp add: adds_def wire_seqs_def)

lemma adds_json_frame:
  assumes w: "write_json_frame P frame evt entry e1 e2 s = Some (s', e)"
    and d: "\<And>key. delivery_of key frame = (if key = subject_String (de_Subject evt) then [(env_Seq (de_Env evt), prev)] else [])"
  shows "adds evt s s'"
  using w
proof (cases rule: json_frame_cases)
  case same
  then show ?thesis by (simp add: adds_same)
next
  case drop
  then show ?thesis using quiet_drop [of s P "''frame_too_large''" "Some evt"] by (intro adds_same) (simp add: quiet_def)
next
  case (fail err)
  have "sa_wire s' = sa_wire s \<or> sa_wire s' = sa_wire s @ [frame]" using write_wire [OF fail] .
  then show ?thesis using d by (auto simp: adds_def wire_seqs_def seqs_def)
next
  case (sent s1 s2)
  have "sa_wire s' = sa_wire s1" using delivered_effect(1) [OF sent(2)] payload_effect(1) [OF sent(3)] by simp
  then have "sa_wire s' = sa_wire s \<or> sa_wire s' = sa_wire s @ [frame]" using write_wire [OF sent(1)] by simp
  then show ?thesis using d by (auto simp: adds_def wire_seqs_def seqs_def)
qed

lemma adds_proto:
  assumes "write_proto_event P ts evt s = Some (s', e)"
  shows "adds evt s s'"
proof (cases "pt_marshalProto P (proto_envelope ts (de_Subject evt) (subject_channel (de_Subject evt))
    (int_read (sa_lastDeliveredSeq s) (subject_String (de_Subject evt))) (de_Env evt) s)")
  case (Inl p)
  then show ?thesis using assms by (simp add: write_proto_event_def adds_same)
next
  case (Inr raw)
  obtain c w where p: "planWireCompression P (ProtoFrame raw) (int (length raw)) s = (c, w)" by fastforce
  obtain s1 e1 where w: "writeRawMessage P (ProtoFrame raw) s = (s1, e1)" by fastforce
  have s1: "deliveries key (sa_wire s1) = deliveries key (sa_wire s)" for key
    using write_wire [OF disjI1 [OF w]] by auto
  have d: "deliveries key (sa_wire (fst (onDrop P ''frame_too_large'' (Some evt) s))) = deliveries key (sa_wire s)" for key
    using quiet_drop [of s P "''frame_too_large''" "Some evt"] by (simp add: quiet_def)
  have "deliveries key (sa_wire s') = deliveries key (sa_wire s)" for key
    using assms Inr p w s1 d delivered_effect(1)
    by (cases e1) (auto simp: write_proto_event_def Let_def split: if_splits option.splits)
  then show ?thesis by (rule adds_same)
qed

lemma adds_event:
  assumes "writeDeliveryEvent P now evt s = Some (s', e)"
  shows "adds evt s s'"
proof -
  obtain t where r: "retry_deferred P now (de_Subject evt) s = Some t"
    using assms by (auto simp: writeDeliveryEvent_def Let_def split: option.splits)
  have t: "deliveries key (sa_wire t) = deliveries key (sa_wire s)" for key using quiet_retry [OF r] by (simp add: quiet_def)
  have json: "adds evt t s'" if "write_json_frame P f evt entry e1 e2 t = Some (s', e)"
    "\<And>key. delivery_of key f = (if key = subject_String (de_Subject evt) then [(env_Seq (de_Env evt), prev)] else [])"
    for f entry e1 e2 prev using adds_json_frame that by blast
  have "adds evt t s'"
  proof (cases "sc_PreferProto (sa_cfg t) \<and> pt_protoRollout P (env_Type (de_Env evt))")
    case True
    then show ?thesis using assms r by (simp add: writeDeliveryEvent_def Let_def adds_proto)
  next
    case False
    show ?thesis
    proof (cases "prepareJSONPayload P (de_Env evt)")
      case (Inl p)
      then show ?thesis using assms r False by (simp add: writeDeliveryEvent_def Let_def adds_same)
    next
      case (Inr payload)
      show ?thesis
      proof (cases "IsSignal (de_Subject evt)")
        case True
        show ?thesis
        proof (cases "prepareSignalFramePayload (pt_signal P) payload")
          case (Inl p)
          then show ?thesis using assms r False Inr True by (simp add: writeDeliveryEvent_def Let_def adds_same)
        next
          case signal: (Inr sp)
          show ?thesis
            using assms r False Inr True signal
            by (simp add: writeDeliveryEvent_def Let_def) (erule json [where prev = None], simp)
        qed
      next
        case nosignal: False
        show ?thesis
          using assms r False Inr nosignal
          by (simp add: writeDeliveryEvent_def Let_def)
            (erule json [where prev = "Some (int_read (sa_lastDeliveredSeq t) (subject_String (de_Subject evt)))"], simp)
      qed
    qed
  qed
  then show ?thesis using adds_wire t by blast
qed

lemma fed_batch_loop:
  assumes w: "batch_loop P subject preps n s = Some (s', k, e)" and n: "n \<le> length preps"
    and q: "map pb_seq preps = map (\<lambda>e. env_Seq (de_Env e)) (take (length preps) (queue s))"
    and subj: "\<forall>e \<in> set (take (length preps) (queue s)). de_Subject e = subject"
  shows "fed k s s'"
  using w
proof (cases rule: batch_loop_cases)
  case same
  then show ?thesis by (simp add: fed_same)
next
  case (fail f err)
  have "sa_wire s' = sa_wire s"
  proof (cases "sc_hasConn (sa_cfg s)")
    case True
    from raw_shape [OF fail(1) True] obtain n where "s' = s\<lparr>sa_writes := n, sa_wire := sa_wire s @ []\<rparr>"
      by (simp only: option.distinct if_False) blast
    then show ?thesis by simp
  next
    case False
    then show ?thesis using write_noconn [OF False] fail(1) by simp
  qed
  then show ?thesis by (simp add: fed_same)
next
  case (sent t)
  have k: "k \<le> length preps" using sent(4) n by simp
  have mk: "min k (length preps) = k" using k by simp
  have qk: "map pb_seq (take k preps) = map (\<lambda>e. env_Seq (de_Env e)) (take k (queue s))"
    using arg_cong [OF q, of "take k"] unfolding take_map take_take mk .
  have sk: "\<forall>e \<in> set (take k (queue s)). de_Subject e = subject"
    using subj set_take_subset_set_take [OF k, of "queue s"] by (meson subsetD)
  have sq: "seqs key (take k (queue s)) = (if key = subject_String subject then map pb_seq (take k preps) else [])" for key
  proof (cases "key = subject_String subject")
    case True
    then have "filter (\<lambda>e. subject_String (de_Subject e) = key) (take k (queue s)) = take k (queue s)"
      using sk by (simp add: filter_id_conv)
    then show ?thesis using True by (simp add: seqs_def qk)
  next
    case False
    then have "filter (\<lambda>e. subject_String (de_Subject e) = key) (take k (queue s)) = []"
      using sk by (simp add: filter_empty_conv)
    then show ?thesis using False by (simp add: seqs_def)
  qed
  have "sa_wire s' = sa_wire s \<or> sa_wire s' = sa_wire s @ [batch_frame subject (take k preps) s]"
    using batch_effect [OF sent(2)] write_wire [OF disjI1 [OF sent(1)]] by simp
  then show ?thesis
  proof
    assume "sa_wire s' = sa_wire s"
    then show ?thesis by (simp add: fed_same)
  next
    assume "sa_wire s' = sa_wire s @ [batch_frame subject (take k preps) s]"
    then have "wire_seqs key s' = wire_seqs key s @ seqs key (take k (queue s))" for key
      by (simp add: wire_seqs_def sq delivery_of_batch comp_def)
    then show ?thesis by (simp add: fed_def)
  qed
qed

lemma fed_batch:
  assumes "writeDeliveryBatchFromQueue P now maxItems s = Some (s', k, e)"
  shows "fed k s s'"
  using assms
proof (cases rule: batch_cases)
  case same
  then show ?thesis by (simp add: fed_same)
next
  case (retried subject)
  then show ?thesis using quiet_fed [OF quiet_retry] by simp
next
  case (loop subject t preps)
  have t: "sa_outbound t = sa_outbound s" using quiet_retry [OF loop(1)] by (simp add: quiet_def)
  have "fed k t s'" using fed_batch_loop [OF loop(2)] loop(5,6) t by simp
  then show ?thesis using fed_trans [OF quiet_fed [OF quiet_retry [OF loop(1)], of 0]] t by simp
qed

lemma fed_flush_one:
  assumes "flush_one P now s = Some (s', out)" "dr_inv (sa_outbound s)"
  shows "fed 1 s s'"
proof (cases "dr_PopFront zero_event (sa_outbound s)")
  case None
  then show ?thesis using assms by (intro fed_same) (auto simp: flush_one_def)
next
  case (Some p)
  obtain evt r where p: "p = (evt, r)" by (cases p)
  have evt: "take 1 (queue s) = [evt]"
    using pop_drained [of zero_event s evt r] Some p assms(2) by (cases "queue s") auto
  obtain t e where w: "writeDeliveryEvent P now evt (s\<lparr>sa_outbound := r\<rparr>) = Some (t, e)"
    using assms(1) Some p by (auto simp: flush_one_def split: option.splits)
  have "adds evt s t" using adds_event [OF w] by (simp add: adds_def wire_seqs_def)
  then have t: "fed 1 s t" unfolding fed_def evt adds_def .
  have "deliveries key (sa_wire s') = deliveries key (sa_wire t)" for key
    using assms(1) Some p w quiet_close [of t] by (cases e) (auto simp: flush_one_def quiet_def)
  then show ?thesis using t by (simp add: fed_def wire_seqs_def)
qed

lemma fed_close: "fed k s t \<Longrightarrow> fed k s (closeSession t)"
  using quiet_close [of t] by (simp add: fed_def wire_seqs_def quiet_def)

lemma fed_flush_step:
  assumes "flush_step P now n s = Some (s', out)" "dr_inv (sa_outbound s)"
  shows "\<exists>k. fed k s s' \<and> (\<forall>j. out = Some j \<longrightarrow> k = Suc j)"
proof (cases "HasBatching (sa_features s) \<and> \<not> sc_PreferProto (sa_cfg s)")
  case False
  then have f: "flush_one P now s = Some (s', out)" using assms(1) by (auto simp: flush_step_def)
  then have "\<forall>j. out = Some j \<longrightarrow> j = 0" by (rule flush_one_cases [OF _ assms(2)]) auto
  then show ?thesis using fed_flush_one [OF f assms(2)] by auto
next
  case True
  then obtain t k e where b: "writeDeliveryBatchFromQueue P now n s = Some (t, k, e)"
    using assms(1) by (auto simp: flush_step_def split: option.splits)
  have t: "fed k s t" "drained k s t" using fed_batch [OF b] drained_batch [OF b assms(2)] by simp_all
  show ?thesis
  proof (cases "e = None \<and> k = 0")
    case zero: True
    then have f: "flush_one P now t = Some (s', out)" using assms(1) True b by (simp add: flush_step_def)
    have inv: "dr_inv (sa_outbound t)" "queue t = drop 0 (queue s)" using t(2) zero by (simp_all add: drained_def)
    have "\<forall>j. out = Some j \<longrightarrow> j = 0" by (rule flush_one_cases [OF f inv(1)]) auto
    moreover have "fed (0 + 1) s s'" using fed_trans [OF _ fed_flush_one [OF f inv(1)] inv(2)] t(1) zero by simp
    ultimately show ?thesis by auto
  next
    case False
    then have "s' = closeSession t \<and> out = None \<or> s' = t \<and> out = Some (k - 1) \<and> 0 < k"
      using assms(1) True b by (cases e) (auto simp: flush_step_def split: if_splits)
    then show ?thesis using t(1) fed_close by (intro exI [of _ k]) auto
  qed
qed

lemma fed_flush_loop:
  assumes "flush_loop P now n s = Some s'" "dr_inv (sa_outbound s)"
  shows "\<exists>k. fed k s s' \<and> (sa_closed s' \<or> queue s' = drop k (queue s))"
  using assms
proof (induction P now n s arbitrary: s' rule: flush_loop.induct)
  case (1 P now n s)
  show ?case
  proof (cases "n = 0")
    case True
    then have "fed 0 s s' \<and> queue s' = queue s"
      using "1.prems" by (subst (asm) flush_loop.simps) (auto intro!: fed_same split: if_splits)
    then show ?thesis by (intro exI [of _ 0]) simp
  next
    case False
    then obtain t out where st: "flush_step P now n s = Some (t, out)"
      using "1.prems"(1) by (subst (asm) flush_loop.simps) (auto split: option.splits)
    obtain k where k: "fed k s t" "\<forall>j. out = Some j \<longrightarrow> k = Suc j" using fed_flush_step [OF st "1.prems"(2)] by blast
    have o: "flush_outcome n s t out" using flush_step_outcome [OF st "1.prems"(2)] False by simp
    show ?thesis
    proof (cases out)
      case None
      then have "s' = t" using "1.prems"(1) False st by (subst (asm) flush_loop.simps) simp
      moreover have "sa_closed t \<or> queue t = drop k (queue s)"
        using o None by (auto simp: flush_outcome_def drained_def)
      ultimately show ?thesis using k(1) by blast
    next
      case (Some j)
      then have d: "drained k s t" using o k(2) by (simp add: flush_outcome_def)
      have "flush_loop P now (n - Suc j) t = Some s'"
        using "1.prems"(1) False st Some by (subst (asm) flush_loop.simps) simp
      then obtain i where i: "fed i t s'" "sa_closed s' \<or> queue s' = drop i (queue t)"
        using "1.IH" [OF False st refl Some] drained_inv [OF d] by blast
      have q: "queue t = drop k (queue s)" using d by (simp add: drained_def)
      then show ?thesis using fed_trans [OF k(1) i(1) q] i(2) by (auto simp: add.commute)
    qed
  qed
qed

section \<open>Lemmas: sequences of messages\<close>

lemma tl_subseq: "subseq (tl xs) xs"
  by (cases xs) auto

lemma remove_nth_subseq: "subseq (remove_nth i xs) xs"
proof -
  have "subseq (drop (Suc i) xs) (drop i xs)" using tl_subseq [of "drop i xs"] by (simp add: tl_drop drop_Suc)
  then have "subseq (take i xs @ drop (Suc i) xs) (take i xs @ drop i xs)" by (intro list_emb_append_mono) simp_all
  then show ?thesis by (simp add: remove_nth_def)
qed

lemma queue_after_subseq: "subseq (queue_after s evt) (queue s @ [evt])"
proof -
  have "subseq (tl (queue s) @ [evt]) (queue s @ [evt])" by (intro list_emb_append_mono tl_subseq) simp
  moreover have "subseq (remove_nth i (queue s) @ [evt]) (queue s @ [evt])" for i
    by (intro list_emb_append_mono remove_nth_subseq) simp
  moreover have "subseq (queue s) (queue s @ [evt])" by (rule list_emb_prefix) simp
  ultimately show ?thesis by (simp add: queue_after_def split: option.split)
qed

lemma ordered_calm:
  assumes "calm s s'" "ordered evts s"
  shows "ordered evts s'"
proof -
  have "wire_seqs key s' = wire_seqs key s" for key using assms(1) by (simp add: calm_def wire_seqs_def)
  then show ?thesis using assms by (auto simp: ordered_def calm_def)
qed

lemma ordered_enqueue:
  assumes "ordered evts s"
  shows "ordered (evts @ [evt]) (enqueueDelivery P evt s)"
proof -
  let ?s = "enqueueDelivery P evt s"
  have e: "enqueued s evt ?s" using enqueue_effect assms by (simp add: ordered_def)
  have w: "wire_seqs key ?s = wire_seqs key s" for key using e by (simp add: enqueued_def held_def wire_seqs_def)
  have "subseq (wire_seqs key ?s) (seqs key (evts @ [evt]))" for key
    unfolding w seqs_append using assms by (intro list_emb_prefix) (simp add: ordered_def)
  moreover have "subseq (wire_seqs key ?s @ seqs key (queue ?s)) (seqs key (evts @ [evt]))" if "\<not> sa_closed ?s" for key
  proof -
    have o: "\<not> sa_closed s" "queue ?s = queue_after s evt" using e that by (auto simp: enqueued_def held_def)
    have "subseq (wire_seqs key s @ seqs key (queue_after s evt)) (wire_seqs key s @ seqs key (queue s @ [evt]))"
      by (intro list_emb_append_mono seqs_subseq queue_after_subseq) simp
    moreover have "subseq ((wire_seqs key s @ seqs key (queue s)) @ seqs key [evt]) (seqs key evts @ seqs key [evt])"
      using assms o(1) by (intro list_emb_append_mono) (simp_all add: ordered_def)
    ultimately show ?thesis unfolding w o(2) seqs_append by (metis append.assoc seqs_append subseq_order.trans)
  qed
  ultimately show ?thesis using e by (simp add: ordered_def enqueued_def)
qed

lemma ordered_flush:
  assumes "ordered evts s" "flushOutbound P now s = Some s'"
  shows "ordered evts s'"
proof (cases "sa_closed s")
  case True
  then have "s' = s\<lparr>sa_flushing := False\<rparr>" using assms(2) by (simp add: flushOutbound_def)
  then show ?thesis using assms(1) by (simp add: ordered_def wire_seqs_def)
next
  case False
  then have l: "flush_loop P now wsFlushBatchSize s = Some s'" using assms(2) by (simp add: flushOutbound_def)
  have inv: "dr_inv (sa_outbound s)" using assms(1) by (simp add: ordered_def)
  have inv': "dr_inv (sa_outbound s')" using flush_effect [OF assms(2) inv] by (simp add: flushed_def)
  obtain k where k: "fed k s s'" "sa_closed s' \<or> queue s' = drop k (queue s)" using fed_flush_loop [OF l inv] by blast
  have "subseq (wire_seqs key s' @ seqs key (drop k (queue s))) (seqs key evts)" for key
  proof -
    obtain ns where ns: "wire_seqs key s' = wire_seqs key s @ ns" "subseq ns (seqs key (take k (queue s)))"
      using k(1) by (auto simp: fed_def)
    have "subseq (wire_seqs key s @ ns @ seqs key (drop k (queue s)))
        (wire_seqs key s @ seqs key (take k (queue s)) @ seqs key (drop k (queue s)))"
      using ns(2) by (intro list_emb_append_mono) simp_all
    moreover have "seqs key (take k (queue s)) @ seqs key (drop k (queue s)) = seqs key (queue s)"
      by (metis append_take_drop_id seqs_append)
    moreover have "subseq (wire_seqs key s @ seqs key (queue s)) (seqs key evts)"
      using assms(1) False by (simp add: ordered_def)
    ultimately show ?thesis unfolding ns(1) by (metis append.assoc subseq_order.trans)
  qed
  moreover from this have "subseq (wire_seqs key s') (seqs key evts)" for key
    by (metis list_emb_appendD list_emb_prefix)
  ultimately show ?thesis using inv' k(2) by (auto simp: ordered_def)
qed

lemma ordered_receive:
  assumes "ordered evts s" "session_Receive P now msg s = Some s'"
  shows "ordered (evts @ (case msg of Delivery evt \<Rightarrow> [evt] | _ \<Rightarrow> [])) s'"
proof -
  have t: "ordered evts (session_ensureDefaults s)" using ordered_calm [OF calm_defaults assms(1)] .
  have r: "session_handle P now msg (session_ensureDefaults s) = Some s'" using assms(2) by (simp add: session_Receive_def)
  consider (delivery) evt where "msg = Delivery evt" | (flush) "msg = FlushOutbound"
    | (other) "msg \<noteq> FlushOutbound" "\<forall>evt. msg \<noteq> Delivery evt" by blast
  then show ?thesis
  proof cases
    case delivery
    then show ?thesis using r ordered_enqueue [OF t] by auto
  next
    case flush
    then show ?thesis using r ordered_flush [OF t] by simp
  next
    case other
    then have "(case msg of Delivery evt \<Rightarrow> [evt] | _ \<Rightarrow> []) = []" by (cases msg) simp_all
    then show ?thesis using ordered_calm [OF calm_handle [OF r other] t] by (simp only: append_Nil2)
  qed
qed

lemma ordered_steps:
  assumes "session_steps P msgs s = Some s'" "ordered evts s"
  shows "ordered (evts @ received msgs) s'"
  using assms
proof (induction P msgs s arbitrary: evts rule: session_steps.induct)
  case (1 P s)
  then show ?case by simp
next
  case (2 P now msg msgs s)
  then obtain t where t: "session_Receive P now msg s = Some t" "session_steps P msgs t = Some s'"
    by (auto split: option.splits)
  show ?case using "2.IH" [OF t(1) t(2) ordered_receive [OF "2.prems"(2) t(1)]] by simp
qed

lemma ordered_new: "ordered [] (NewSessionActor cfg newID pid now wireCache)"
  using scheduled_new [of cfg newID pid now wireCache]
  by (simp add: ordered_def scheduled_def)
    (simp add: NewSessionActor_def Let_def wire_seqs_def seqs_def newDeliveryRing_def dr_view_def ring_view_def)

section \<open>Properties\<close>

text \<open>
  Property C1. A session delivers in order and at most once. For every sequence of messages that it can
  receive, deliveries, commands, ticks and flushes alike, the numbers that its client receives in
  JSON frames for a subject, one by one or in batches, are a subsequence of the numbers of the events
  that the session received for that subject.
\<close>

theorem session_delivers_in_order:
  assumes "session_steps P msgs (NewSessionActor cfg newID pid now0 wireCache) = Some s"
  shows "subseq (wire_seqs key s) (seqs key (received msgs))"
  using ordered_steps [OF assms ordered_new] by (simp add: ordered_def)

text \<open>Four events, a queue for two, and a batch: the client receives the last two events.\<close>

theorem session_delivers_in_order_witness:
  "let msgs = [(1, InboundText ''hello batching''), (1, Delivery (demo_event ''marketdata.trade'' 5)),
      (2, Delivery (demo_event ''marketdata.trade'' 6)), (3, Delivery (demo_event ''marketdata.trade'' 7)),
      (3, Delivery (demo_event ''marketdata.trade'' 8)), (4, FlushOutbound)];
     key = subject_String (trade_subject ''BTC'');
     s = the (session_steps demo_ports msgs (demo_session ''drop_oldest'' 2 0)) in
   wire_seqs key s = [7, 8] \<and> seqs key (received msgs) = [5, 6, 7, 8] \<and> subseq (wire_seqs key s) (seqs key (received msgs))"
proof -
  let ?msgs = "[(1 :: int, InboundText ''hello batching''), (1, Delivery (demo_event ''marketdata.trade'' 5)),
      (2, Delivery (demo_event ''marketdata.trade'' 6)), (3, Delivery (demo_event ''marketdata.trade'' 7)),
      (3, Delivery (demo_event ''marketdata.trade'' 8)), (4, FlushOutbound)]"
  let ?key = "subject_String (trade_subject ''BTC'')" and ?init = "demo_session ''drop_oldest'' 2 0"
  let ?s = "the (session_steps demo_ports ?msgs ?init)"
  have "session_steps demo_ports ?msgs ?init \<noteq> None" by code_simp
  then have "session_steps demo_ports ?msgs ?init = Some ?s" by simp
  then have "subseq (wire_seqs ?key ?s) (seqs ?key (received ?msgs))"
    unfolding demo_session_def by (rule session_delivers_in_order)
  moreover have "wire_seqs ?key ?s = [7, 8]" "seqs ?key (received ?msgs) = [5, 6, 7, 8]" by code_simp+
  ultimately show ?thesis by (simp only: Let_def)
qed

end
