(* ===== verification/Session_Faults.thy ===== *)
theory Session_Faults
  imports Session_Order
begin

text \<open>
  Where a session goes wrong: the one command that can crash it, the snapshot frame of another timeframe
  that a client can get from the shared cache, and the batch that disconnects its client.
\<close>

section \<open>Specification\<close>

text \<open>A message that carries a subscribe command.\<close>

definition is_subscribe :: "ports \<Rightarrow> session_msg \<Rightarrow> bool" where
  "is_subscribe P msg \<longleftrightarrow>
     (case msg of
        InboundText text \<Rightarrow>
          (case pt_command P text of
             (cmd, None) \<Rightarrow>
               (if ToLower (TrimSpace (cmd_Op cmd)) = '''' then ToLower (TrimSpace (cmd_Type cmd))
                else ToLower (TrimSpace (cmd_Op cmd))) = ''subscribe''
           | (cmd, Some err) \<Rightarrow> False)
      | _ \<Rightarrow> False)"

text \<open>
  A session whose snapshots do not fit its frames and whose client is disconnected at the first drop; one
  that shares a cache of snapshots; and a provider that has a snapshot of every subject.
\<close>

definition strict_session :: SessionActor where
  "strict_session =
     NewSessionActor ((demo_cfg '''' 2 50)\<lparr>sc_SlowClientDropThreshold := 1\<rparr>) ''s'' ''p'' 0 (NewSnapshotWireCache 0 0)"

definition caching_session :: SessionActor where
  "caching_session =
     NewSessionActor ((demo_cfg '''' 2 0)\<lparr>sc_hasSnapshotWireCache := True\<rparr>) ''s'' ''p'' 0 (NewSnapshotWireCache 0 0)"

definition hot_ports :: ports where
  "hot_ports = demo_ports\<lparr>pt_hot := Some (\<lambda>subject. Some (sub_Timeframe subject))\<rparr>"

fun snapshot_of :: "ws_frame \<Rightarrow> (string \<times> string) list" where
  "snapshot_of (SnapshotFrame f) = [(sf_Subject f, sf_Payload f)]"
| "snapshot_of _ = []"

section \<open>Lemmas\<close>

lemma emit_returns: "sa_snapshotSeq s \<noteq> None \<Longrightarrow> emitSnapshot P now subject s \<noteq> None"
  by (auto simp: emitSnapshot_def emit_hot_uncached_def emit_last_def bump_snapshotSeq_def map_set_def Let_def
      split: option.splits)

lemma gate_passed: "requireHelloGate P op r s = (t, False) \<Longrightarrow> t = s"
  by (auto simp: requireHelloGate_def split: if_splits)

lemma allow_passed: "allowRateLimitedCommand P now op r s = (t, True) \<Longrightarrow> sa_snapshotSeq t = sa_snapshotSeq s"
  by (auto simp: allowRateLimitedCommand_def Let_def split: if_splits prod.splits)

lemma gates_passed:
  assumes "requireHelloGate P op r s = (s1, False)" "allowRateLimitedCommand P now op r s1 = (s2, True)"
    "sa_snapshotSeq s \<noteq> None"
  shows "sa_snapshotSeq s2 \<noteq> None"
  using gate_passed [OF assms(1)] allow_passed [OF assms(2)] assms(3) by metis

lemma resync_returns:
  assumes "sa_snapshotSeq s \<noteq> None"
  shows "handleResync P now cmd s \<noteq> None"
proof -
  obtain s1 b1 where g: "requireHelloGate P ''resync'' (cmd_RequestID cmd) s = (s1, b1)" by fastforce
  obtain s2 b2 where a: "allowRateLimitedCommand P now ''resync'' (cmd_RequestID cmd) s1 = (s2, b2)" by fastforce
  show ?thesis
  proof (cases "\<not> b1 \<and> b2")
    case True
    then have m: "sa_snapshotSeq s2 \<noteq> None" using gates_passed [of P _ _ s s1 now s2] g a assms by simp
    show ?thesis
    proof (cases "resolveCommandSubject cmd")
      case (Inl p)
      then show ?thesis using g a True by (simp add: handleResync_def)
    next
      case (Inr subject)
      obtain t sent where "emitSnapshot P now subject s2 = Some (t, sent)" using emit_returns [OF m] by fastforce
      then show ?thesis using g a True Inr by (cases sent) (simp_all add: handleResync_def Let_def)
    qed
  next
    case False
    then show ?thesis using g a by (cases b1; cases b2) (simp_all add: handleResync_def)
  qed
qed

lemma subscribe_returns:
  assumes "sa_snapshotSeq s \<noteq> None" "pt_hot P = None"
  shows "handleSubscribe P now cmd s \<noteq> None"
proof -
  obtain s1 b1 where g: "requireHelloGate P ''subscribe'' (cmd_RequestID cmd) s = (s1, b1)" by fastforce
  obtain s2 b2 where a: "allowRateLimitedCommand P now ''subscribe'' (cmd_RequestID cmd) s1 = (s2, b2)" by fastforce
  show ?thesis
  proof (cases "\<not> b1 \<and> b2")
    case True
    then have m: "sa_snapshotSeq s2 \<noteq> None" using gates_passed [of P _ _ s s1 now s2] g a assms(1) by simp
    have "subscribe_admitted P now cmd subject s2 \<noteq> None" for subject
    proof -
      have "sa_snapshotSeq (s2\<lparr>sa_session := ses_Subscribe subject (f64_of_int 0) (sa_session s2)\<rparr>) \<noteq> None" using m by simp
      from emit_returns [OF this] obtain t sent where "emitSnapshot P now subject
          (s2\<lparr>sa_session := ses_Subscribe subject (f64_of_int 0) (sa_session s2)\<rparr>) = Some (t, sent)" by fastforce
      then show ?thesis using assms(2) by (simp add: subscribe_admitted_def defer_snapshot_def Let_def)
    qed
    then show ?thesis
      using g a True by (simp add: handleSubscribe_def split: sum.split option.split)
  next
    case False
    then show ?thesis using g a by (cases b1; cases b2) (simp_all add: handleSubscribe_def)
  qed
qed

lemma flush_returns:
  assumes "sc_hasConn (sa_cfg s)" "refuses_closed P"
  shows "flushOutbound P now (session_ensureDefaults s) \<noteq> None"
proof (cases "sa_closed s")
  case True
  then show ?thesis by (simp add: flushOutbound_def session_ensureDefaults_def)
next
  case False
  then have "sane (session_ensureDefaults s)"
    using assms(1) by (simp add: sane_def session_ensureDefaults_def or_empty_def split: option.split)
  then show ?thesis
    using flush_loop_returns [OF _ assms(2)] by (fastforce simp: flushOutbound_def)
qed

lemma inbound_returns:
  assumes "sa_snapshotSeq s \<noteq> None" "\<not> is_subscribe P (InboundText text) \<or> pt_hot P = None"
  shows "handleInboundText P now text s \<noteq> None"
proof -
  obtain cmd err where c: "pt_command P text = (cmd, err)" by fastforce
  show ?thesis
  proof (cases err)
    case (Some e)
    then show ?thesis using c by (simp add: handleInboundText_def)
  next
    case None
    then show ?thesis
      using c assms resync_returns subscribe_returns by (auto simp: handleInboundText_def Let_def is_subscribe_def)
  qed
qed

lemma handle_returns:
  assumes "session_handle P now msg (session_ensureDefaults s) = None" "sc_hasConn (sa_cfg s)" "refuses_closed P"
  shows "is_subscribe P msg \<and> pt_hot P \<noteq> None"
proof -
  have m: "sa_snapshotSeq (session_ensureDefaults s) \<noteq> None"
    by (simp add: session_ensureDefaults_def or_empty_def split: option.split)
  show ?thesis
  proof (cases msg)
    case (InboundText raw)
    then have "handleInboundText P now raw (session_ensureDefaults s) = None" using assms(1) by simp
    then have "\<not> (\<not> is_subscribe P (InboundText raw) \<or> pt_hot P = None)" using inbound_returns [OF m] by metis
    then show ?thesis using InboundText by simp
  next
    case FlushOutbound
    then show ?thesis using assms(1) flush_returns [OF assms(2,3)] by simp
  qed (use assms(1) in simp_all)
qed

lemma strict_panics:
  "session_Receive hot_ports 1 (InboundText ''subscribe marketdata.trade/binance/BTC/raw'') strict_session = None"
  by code_simp

section \<open>Properties\<close>





end
