(* ===== verification/Supervisor.thy ===== *)
theory Supervisor
  imports Problem
begin

text \<open>
  The restart policy of the runtime (\<open>internal/actors/runtime/supervisor.go\<close>): which failures of a
  subsystem lead to a restart, after which delay, and when the subsystem is put aside for a cooldown.
  The clock reading and the random number of a call are its arguments; a restart state that the Go code
  reaches through a pointer is the entry of an association list.
\<close>

section \<open>Definitions\<close>

record SupervisorConfig =
  sup_BaseBackoff :: int
  sup_MaxBackoff :: int
  sup_Jitter :: f64
  sup_RestartWindow :: int
  sup_RestartLimit :: int
  sup_Cooldown :: int

record SupervisorDecision =
  dec_Restart :: bool
  dec_Delay :: int
  dec_EnterDegraded :: bool
  dec_DegradedUntil :: int
  dec_Reason :: string

record PolicyStatus =
  ps_Degraded :: bool
  ps_RestartCount :: int
  ps_CooldownUntil :: int

record restartState =
  rs_failures :: "int list"
  rs_degradedUntil :: int
  rs_restartCount :: int

record SupervisorPolicy =
  sp_cfg :: SupervisorConfig
  sp_states :: "(string \<times> restartState) list"

definition NewSupervisorPolicy :: "SupervisorConfig \<Rightarrow> SupervisorPolicy result" where
  "NewSupervisorPolicy cfg =
     (let cfg = (if sup_BaseBackoff cfg \<le> 0 then cfg\<lparr>sup_BaseBackoff := 250000000\<rparr> else cfg);
          cfg = (if sup_MaxBackoff cfg \<le> 0 then cfg\<lparr>sup_MaxBackoff := 5000000000\<rparr> else cfg)
      in if sup_MaxBackoff cfg < sup_BaseBackoff cfg
         then Inl (New InvalidArgument ''max backoff must be >= base backoff'')
         else
           let cfg = (if sup_RestartWindow cfg \<le> 0 then cfg\<lparr>sup_RestartWindow := 30000000000\<rparr> else cfg);
               cfg = (if sup_RestartLimit cfg \<le> 0 then cfg\<lparr>sup_RestartLimit := 5\<rparr> else cfg);
               cfg = (if sup_Cooldown cfg \<le> 0 then cfg\<lparr>sup_Cooldown := 30000000000\<rparr> else cfg)
           in if f64_lt (sup_Jitter cfg) (f64_of_int 0) \<or> f64_gt (sup_Jitter cfg) (f64_of_int 1)
              then Inl (New InvalidArgument ''jitter must be in [0,1]'')
              else Inr \<lparr>sp_cfg = cfg, sp_states = []\<rparr>)"

definition zero_restartState :: restartState where
  "zero_restartState = \<lparr>rs_failures = [], rs_degradedUntil = zeroTime, rs_restartCount = 0\<rparr>"

definition policy_state :: "string \<Rightarrow> SupervisorPolicy \<Rightarrow> SupervisorPolicy \<times> restartState" where
  "policy_state subsystem p =
     (case map_of (sp_states p) subsystem of
        Some st \<Rightarrow> (p, st)
      | None \<Rightarrow> (p\<lparr>sp_states := AList.update subsystem zero_restartState (sp_states p)\<rparr>, zero_restartState))"

definition pruneFailures :: "int list \<Rightarrow> int \<Rightarrow> int \<Rightarrow> int list" where
  "pruneFailures events now window = dropWhile (\<lambda>t. t < now - window) events"

text \<open>\<open>math.Pow(2, float64(n))\<close> for an integer \<open>n\<close> that is not negative, which is exact until it overflows.\<close>

definition Pow_2 :: "int \<Rightarrow> f64" where
  "Pow_2 n = f64_of_rat (2 ^ nat n)"

definition cappedExponentialBackoff :: "int \<Rightarrow> int \<Rightarrow> int \<Rightarrow> int" where
  "cappedExponentialBackoff base capDelay attempt =
     (let attempt = (if attempt < 0 then 0 else attempt);
          mult = Pow_2 attempt
      in if IsInf mult then capDelay
         else
           let rawFloat = f64_mul (f64_of_int base) mult
           in if IsInf rawFloat \<or> f64_le rawFloat (f64_of_int 0) \<or> f64_gt rawFloat (f64_of_int capDelay)
              then capDelay else f64_to_int64 rawFloat)"

definition applyJitter :: "int \<Rightarrow> f64 \<Rightarrow> f64 \<Rightarrow> int" where
  "applyJitter delay jitter rnd =
     (if delay \<le> 0 \<or> f64_eq jitter (f64_of_int 0) then delay
      else
        let scale = f64_add (f64_of_int 1)
              (f64_mul (f64_sub (f64_mul rnd (f64_of_int 2)) (f64_of_int 1)) jitter);
            scale = (if f64_lt scale (f64_of_int 0) then f64_of_int 0 else scale)
        in f64_to_int64 (f64_mul (f64_of_int delay) scale))"

definition OnFailure ::
  "string \<Rightarrow> int \<Rightarrow> f64 \<Rightarrow> SupervisorPolicy \<Rightarrow> SupervisorPolicy \<times> SupervisorDecision" where
  "OnFailure subsystem now rnd p =
     (let (p, st) = policy_state subsystem p in
      if now < rs_degradedUntil st then
        (p, \<lparr>dec_Restart = False, dec_Delay = 0, dec_EnterDegraded = False,
             dec_DegradedUntil = rs_degradedUntil st, dec_Reason = ''subsystem in cooldown''\<rparr>)
      else
        let cfg = sp_cfg p;
            st = st\<lparr>rs_failures := pruneFailures (rs_failures st) now (sup_RestartWindow cfg) @ [now]\<rparr>
        in if int (length (rs_failures st)) > sup_RestartLimit cfg then
             let st = st\<lparr>rs_degradedUntil := now + sup_Cooldown cfg\<rparr>
             in (p\<lparr>sp_states := AList.update subsystem st (sp_states p)\<rparr>,
                 \<lparr>dec_Restart = False, dec_Delay = 0, dec_EnterDegraded = True,
                  dec_DegradedUntil = rs_degradedUntil st, dec_Reason = ''restart limit exceeded''\<rparr>)
           else
             let attempt = int (length (rs_failures st)) - 1;
                 delay = cappedExponentialBackoff (sup_BaseBackoff cfg) (sup_MaxBackoff cfg) attempt;
                 delay = applyJitter delay (sup_Jitter cfg) rnd;
                 st = st\<lparr>rs_restartCount := rs_restartCount st + 1\<rparr>
             in (p\<lparr>sp_states := AList.update subsystem st (sp_states p)\<rparr>,
                 \<lparr>dec_Restart = True, dec_Delay = delay, dec_EnterDegraded = False,
                  dec_DegradedUntil = rs_degradedUntil st, dec_Reason = ''''\<rparr>))"

definition MarkRecovered :: "string \<Rightarrow> SupervisorPolicy \<Rightarrow> SupervisorPolicy" where
  "MarkRecovered subsystem p =
     (let (p, st) = policy_state subsystem p
      in p\<lparr>sp_states := AList.update subsystem (st\<lparr>rs_failures := [], rs_degradedUntil := zeroTime\<rparr>) (sp_states p)\<rparr>)"

definition Status :: "string \<Rightarrow> int \<Rightarrow> SupervisorPolicy \<Rightarrow> SupervisorPolicy \<times> PolicyStatus" where
  "Status subsystem now p =
     (let (p, st) = policy_state subsystem p
      in (p, \<lparr>ps_Degraded = (now < rs_degradedUntil st), ps_RestartCount = rs_restartCount st,
              ps_CooldownUntil = rs_degradedUntil st\<rparr>))"

text \<open>The restart state of a subsystem as the next call finds it.\<close>

definition restart_of :: "SupervisorPolicy \<Rightarrow> string \<Rightarrow> restartState" where
  "restart_of p subsystem = (case map_of (sp_states p) subsystem of Some st \<Rightarrow> st | None \<Rightarrow> zero_restartState)"

text \<open>
  Runs of the policy: the calls with their times. \<open>granted\<close> collects the times of the failures of one
  subsystem that were answered with a restart.
\<close>

datatype policy_call = Failed string int f64 | Asked string int

fun call_time :: "policy_call \<Rightarrow> int" where
  "call_time (Failed _ now _) = now"
| "call_time (Asked _ now) = now"

fun granted :: "string \<Rightarrow> policy_call list \<Rightarrow> SupervisorPolicy \<Rightarrow> int list" where
  "granted s [] p = []"
| "granted s (Failed x now rnd # calls) p =
     (let (p, d) = OnFailure x now rnd p
      in (if x = s \<and> dec_Restart d then [now] else []) @ granted s calls p)"
| "granted s (Asked x now # calls) p = granted s calls (fst (Status x now p))"

section \<open>Lemmas\<close>

lemma restart_of_update [simp]:
  "restart_of (p\<lparr>sp_states := AList.update x st (sp_states p)\<rparr>) s = (if s = x then st else restart_of p s)"
  by (simp add: restart_of_def update_conv)

lemma policy_state_eq:
  assumes "policy_state x p = (p', st)"
  shows "st = restart_of p x" "restart_of p' s = restart_of p s" "sp_cfg p' = sp_cfg p"
  using assms by (auto simp: policy_state_def restart_of_def update_conv split: option.splits if_splits)

lemma status_eq:
  assumes "Status x now p = (p', st)"
  shows "restart_of p' s = restart_of p s" "sp_cfg p' = sp_cfg p"
    "ps_Degraded st = (now < rs_degradedUntil (restart_of p x))"
    "ps_CooldownUntil st = rs_degradedUntil (restart_of p x)"
proof -
  obtain q rs where q: "policy_state x p = (q, rs)" by fastforce
  then have "p' = q" "st = \<lparr>ps_Degraded = (now < rs_degradedUntil rs), ps_RestartCount = rs_restartCount rs,
      ps_CooldownUntil = rs_degradedUntil rs\<rparr>" using assms by (simp_all add: Status_def)
  then show "restart_of p' s = restart_of p s" "sp_cfg p' = sp_cfg p"
    "ps_Degraded st = (now < rs_degradedUntil (restart_of p x))"
    "ps_CooldownUntil st = rs_degradedUntil (restart_of p x)"
    by (simp_all add: policy_state_eq [OF q])
qed

lemma mark_recovered_eq:
  "restart_of (MarkRecovered x p) s =
     (if s = x then (restart_of p x)\<lparr>rs_failures := [], rs_degradedUntil := zeroTime\<rparr> else restart_of p s)"
  "sp_cfg (MarkRecovered x p) = sp_cfg p"
proof -
  obtain p' st where q: "policy_state x p = (p', st)" by fastforce
  show "restart_of (MarkRecovered x p) s =
     (if s = x then (restart_of p x)\<lparr>rs_failures := [], rs_degradedUntil := zeroTime\<rparr> else restart_of p s)"
  "sp_cfg (MarkRecovered x p) = sp_cfg p"
    by (simp_all add: MarkRecovered_def q policy_state_eq [OF q])
qed

text \<open>The three answers to a failure.\<close>

lemma failure_cases [consumes 1, case_names cooldown degraded restart]:
  assumes "OnFailure x now rnd p = (p', d)"
  obtains "now < rs_degradedUntil (restart_of p x)" "\<not> dec_Restart d" "\<not> dec_EnterDegraded d"
      "\<And>s. restart_of p' s = restart_of p s" "sp_cfg p' = sp_cfg p"
  | fs where "rs_degradedUntil (restart_of p x) \<le> now"
      "fs = pruneFailures (rs_failures (restart_of p x)) now (sup_RestartWindow (sp_cfg p)) @ [now]"
      "sup_RestartLimit (sp_cfg p) < int (length fs)" "\<not> dec_Restart d" "dec_EnterDegraded d"
      "dec_DegradedUntil d = now + sup_Cooldown (sp_cfg p)"
      "\<And>s. restart_of p' s = (if s = x then (restart_of p x)\<lparr>rs_failures := fs,
          rs_degradedUntil := now + sup_Cooldown (sp_cfg p)\<rparr> else restart_of p s)" "sp_cfg p' = sp_cfg p"
  | fs where "rs_degradedUntil (restart_of p x) \<le> now"
      "fs = pruneFailures (rs_failures (restart_of p x)) now (sup_RestartWindow (sp_cfg p)) @ [now]"
      "int (length fs) \<le> sup_RestartLimit (sp_cfg p)" "dec_Restart d" "\<not> dec_EnterDegraded d"
      "dec_Delay d = applyJitter (cappedExponentialBackoff (sup_BaseBackoff (sp_cfg p))
          (sup_MaxBackoff (sp_cfg p)) (int (length fs) - 1)) (sup_Jitter (sp_cfg p)) rnd"
      "\<And>s. restart_of p' s = (if s = x then (restart_of p x)\<lparr>rs_failures := fs,
          rs_restartCount := rs_restartCount (restart_of p x) + 1\<rparr> else restart_of p s)" "sp_cfg p' = sp_cfg p"
proof -
  obtain q st where q: "policy_state x p = (q, st)" by fastforce
  note eq = policy_state_eq [OF q]
  let ?fs = "pruneFailures (rs_failures (restart_of p x)) now (sup_RestartWindow (sp_cfg p)) @ [now]"
  consider "now < rs_degradedUntil (restart_of p x)"
    | "rs_degradedUntil (restart_of p x) \<le> now" "sup_RestartLimit (sp_cfg p) < int (length ?fs)"
    | "rs_degradedUntil (restart_of p x) \<le> now" "int (length ?fs) \<le> sup_RestartLimit (sp_cfg p)"
    by linarith
  then show thesis
  proof cases
    case 1
    then have "p' = q" "\<not> dec_Restart d" "\<not> dec_EnterDegraded d" using assms q eq(1) by (auto simp: OnFailure_def)
    with 1 show thesis using that(1) eq(2,3) by simp
  next
    case 2
    then have "p' = q\<lparr>sp_states := AList.update x ((restart_of p x)\<lparr>rs_failures := ?fs,
          rs_degradedUntil := now + sup_Cooldown (sp_cfg p)\<rparr>) (sp_states q)\<rparr>"
      "\<not> dec_Restart d" "dec_EnterDegraded d" "dec_DegradedUntil d = now + sup_Cooldown (sp_cfg p)"
      using assms q eq(1,3) by (auto simp: OnFailure_def Let_def)
    with 2 show thesis using that(2) [of ?fs] eq(2,3) by simp
  next
    case 3
    then have "p' = q\<lparr>sp_states := AList.update x ((restart_of p x)\<lparr>rs_failures := ?fs,
          rs_restartCount := rs_restartCount (restart_of p x) + 1\<rparr>) (sp_states q)\<rparr>"
      "dec_Restart d" "\<not> dec_EnterDegraded d"
      "dec_Delay d = applyJitter (cappedExponentialBackoff (sup_BaseBackoff (sp_cfg p))
          (sup_MaxBackoff (sp_cfg p)) (int (length ?fs) - 1)) (sup_Jitter (sp_cfg p)) rnd"
      using assms q eq(1,3) by (auto simp: OnFailure_def Let_def)
    with 3 show thesis using that(3) [of ?fs] eq(2,3) by simp
  qed
qed

subsection \<open>The rate of restarts\<close>

lemma dropWhile_sorted: "sorted xs \<Longrightarrow> dropWhile (\<lambda>t. t < (c :: int)) xs = filter (\<lambda>t. c \<le> t) xs"
proof (induction xs)
  case (Cons x xs)
  show ?case
  proof (cases "x < c")
    case False
    then have "filter (\<lambda>t. c \<le> t) xs = xs" using Cons.prems by (auto simp: filter_id_conv)
    then show ?thesis using False by simp
  qed (use Cons in simp)
qed simp

lemma length_filter_mono: "(\<And>x. x \<in> set xs \<Longrightarrow> P x \<Longrightarrow> Q x) \<Longrightarrow> length (filter P xs) \<le> length (filter Q xs)"
  by (induction xs) auto

text \<open>
  What a run keeps: \<open>R\<close> are the restarts granted so far and \<open>T\<close> is the time of the last call. Every
  restart that a later window can contain is still in the list of failures.
\<close>

definition rate_inv :: "string \<Rightarrow> int list \<Rightarrow> int \<Rightarrow> SupervisorPolicy \<Rightarrow> bool" where
  "rate_inv s R T p \<longleftrightarrow>
     sorted (rs_failures (restart_of p s)) \<and> (\<forall>t \<in> set (rs_failures (restart_of p s)) \<union> set R. t \<le> T) \<and>
     (\<forall>c \<ge> T - sup_RestartWindow (sp_cfg p).
        length (filter (\<lambda>t. c \<le> t) R) \<le> length (filter (\<lambda>t. c \<le> t) (rs_failures (restart_of p s)))) \<and>
     (\<forall>from. int (length (filter (\<lambda>t. from \<le> t \<and> t \<le> from + sup_RestartWindow (sp_cfg p)) R)) \<le> sup_RestartLimit (sp_cfg p))"

lemma rate_inv_quiet:
  assumes "rate_inv s R T p" "T \<le> now" "restart_of p' s = restart_of p s" "sp_cfg p' = sp_cfg p"
  shows "rate_inv s R now p'"
proof -
  have "T - sup_RestartWindow (sp_cfg p) \<le> c" if "now - sup_RestartWindow (sp_cfg p) \<le> c" for c
    using that assms(2) by linarith
  moreover have "t \<le> now" if "t \<le> T" for t using that assms(2) by linarith
  ultimately show ?thesis using assms(1) by (simp add: rate_inv_def assms(3,4))
qed

lemma rate_inv_failures:
  assumes "rate_inv s R T p" "T \<le> now" "sp_cfg p' = sp_cfg p"
    "rs_failures (restart_of p' s) = pruneFailures (rs_failures (restart_of p s)) now (sup_RestartWindow (sp_cfg p)) @ [now]"
    "R' = R \<or> R' = R @ [now] \<and> int (length (rs_failures (restart_of p' s))) \<le> sup_RestartLimit (sp_cfg p)"
  shows "rate_inv s R' now p'"
proof -
  let ?W = "sup_RestartWindow (sp_cfg p)" and ?F = "rs_failures (restart_of p s)" and ?F' = "rs_failures (restart_of p' s)"
  have F: "sorted ?F" "\<And>t. t \<in> set ?F \<Longrightarrow> t \<le> T" "\<And>t. t \<in> set R \<Longrightarrow> t \<le> T"
    and C: "\<And>c. T - ?W \<le> c \<Longrightarrow> length (filter (\<lambda>t. c \<le> t) R) \<le> length (filter (\<lambda>t. c \<le> t) ?F)"
    and L: "\<And>from. int (length (filter (\<lambda>t. from \<le> t \<and> t \<le> from + ?W) R)) \<le> sup_RestartLimit (sp_cfg p)"
    using assms(1) by (auto simp: rate_inv_def)
  have F': "?F' = filter (\<lambda>t. now - ?W \<le> t) ?F @ [now]" using assms(4) F(1) by (simp add: pruneFailures_def dropWhile_sorted)
  have count: "length (filter (\<lambda>t. c \<le> t) R') \<le> length (filter (\<lambda>t. c \<le> t) ?F')" if "now - ?W \<le> c" for c
  proof -
    have "filter (\<lambda>t. c \<le> t) (filter (\<lambda>t. now - ?W \<le> t) ?F) = filter (\<lambda>t. c \<le> t) ?F"
      using that by (auto intro: filter_cong)
    moreover have "length (filter (\<lambda>t. c \<le> t) R) \<le> length (filter (\<lambda>t. c \<le> t) ?F)" using C that assms(2) by simp
    ultimately show ?thesis using assms(5) F' by auto
  qed
  have window: "int (length (filter (\<lambda>t. from \<le> t \<and> t \<le> from + ?W) R')) \<le> sup_RestartLimit (sp_cfg p)" for "from"
  proof (cases "R' = R @ [now] \<and> from \<le> now \<and> now \<le> from + ?W")
    case True
    have "length (filter (\<lambda>t. from \<le> t \<and> t \<le> from + ?W) R') \<le> length (filter (\<lambda>t. from \<le> t) R')"
      by (rule length_filter_mono) simp
    also have "\<dots> \<le> length (filter (\<lambda>t. from \<le> t) ?F')" using True by (intro count) simp
    also have "\<dots> \<le> length ?F'" by simp
    finally show ?thesis using True assms(5) by auto
  next
    case False
    then have "filter (\<lambda>t. from \<le> t \<and> t \<le> from + ?W) R' = filter (\<lambda>t. from \<le> t \<and> t \<le> from + ?W) R"
      using assms(5) by auto
    then show ?thesis using L by simp
  qed
  have "sorted ?F'" using F(1,2) assms(2) F' by (fastforce simp: sorted_append sorted_wrt_filter)
  moreover have "\<forall>t \<in> set ?F' \<union> set R'. t \<le> now" using F(2,3) assms(2,5) F' by fastforce
  ultimately show ?thesis using count window assms(3) by (simp add: rate_inv_def)
qed

lemma rate_inv_failed:
  assumes "rate_inv s R T p" "T \<le> now" "OnFailure x now rnd p = (p', d)"
  shows "rate_inv s (R @ (if x = s \<and> dec_Restart d then [now] else [])) now p'"
  using assms(3)
proof (cases rule: failure_cases)
  case cooldown
  then show ?thesis using rate_inv_quiet [OF assms(1,2)] by simp
next
  case (degraded fs)
  show ?thesis
  proof (cases "x = s")
    case True
    then show ?thesis using rate_inv_failures [OF assms(1,2), of p' R] degraded by simp
  qed (use rate_inv_quiet [OF assms(1,2)] degraded in simp)
next
  case (restart fs)
  show ?thesis
  proof (cases "x = s")
    case True
    then show ?thesis using rate_inv_failures [OF assms(1,2), of p' "R @ [now]"] restart by simp
  qed (use rate_inv_quiet [OF assms(1,2)] restart in simp)
qed

lemma rate_run:
  assumes "rate_inv s R T p" "sorted (T # map call_time calls)"
  shows "int (length (filter (\<lambda>t. from \<le> t \<and> t \<le> from + sup_RestartWindow (sp_cfg p)) (R @ granted s calls p)))
    \<le> sup_RestartLimit (sp_cfg p)"
  using assms
proof (induction calls arbitrary: R T p)
  case Nil
  then show ?case by (simp add: rate_inv_def)
next
  case (Cons call calls)
  show ?case
  proof (cases call)
    case (Failed x now rnd)
    obtain p' d where f: "OnFailure x now rnd p = (p', d)" by fastforce
    then have cfg: "sp_cfg p' = sp_cfg p" by (cases rule: failure_cases)
    have "rate_inv s (R @ (if x = s \<and> dec_Restart d then [now] else [])) now p'"
      using rate_inv_failed [OF Cons.prems(1) _ f] Cons.prems(2) Failed by simp
    from Cons.IH [OF this] show ?thesis using Cons.prems(2) Failed f cfg by simp
  next
    case (Asked x now)
    obtain p' st where f: "Status x now p = (p', st)" by fastforce
    have "rate_inv s R now p'"
      using rate_inv_quiet [OF Cons.prems(1)] status_eq(1,2) [OF f] Cons.prems(2) Asked by simp
    from Cons.IH [OF this] show ?thesis using Cons.prems(2) Asked f status_eq(2) [OF f] by simp
  qed
qed

lemma new_policy:
  assumes "NewSupervisorPolicy cfg = Inr p"
  shows "sp_states p = []" "0 < sup_RestartLimit (sp_cfg p)" "0 < sup_RestartWindow (sp_cfg p)"
    "0 < sup_BaseBackoff (sp_cfg p)" "sup_BaseBackoff (sp_cfg p) \<le> sup_MaxBackoff (sp_cfg p)"
    "0 < sup_Cooldown (sp_cfg p)"
  using assms by (auto simp: NewSupervisorPolicy_def Let_def split: if_splits)

subsection \<open>The delay of a restart\<close>

definition in_unit :: "f64 \<Rightarrow> bool" where
  "in_unit x = (case x of FFin s m \<Rightarrow> \<not> s \<and> 0 \<le> m \<and> m \<le> 1 | _ \<Rightarrow> False)"

lemma round_mag_le_int: "q \<le> of_int n \<Longrightarrow> 0 \<le> n \<Longrightarrow> n \<le> 2 ^ 53 \<Longrightarrow> round_mag q \<le> of_int n"
  using round_mag_mono [of q "of_int n"] round_mag_int [of n] by simp

lemma round_mag_le_1: "q \<le> 1 \<Longrightarrow> round_mag q \<le> 1" and round_mag_le_2: "q \<le> 2 \<Longrightarrow> round_mag q \<le> 2"
  using round_mag_le_int [of q 1] round_mag_le_int [of q 2] by simp_all

lemma small_ints [simp]: "f64_of_int 0 = FFin False 0" "f64_of_int 1 = FFin False 1" "f64_of_int 2 = FFin False 2"
  using f64_of_int_exact [of 0] f64_of_int_exact [of 1] f64_of_int_exact [of 2] by simp_all

lemma f64_round_small: "q \<le> 4 \<Longrightarrow> f64_round s q = FFin s (round_mag q)"
  by (rule f64_round_fin) simp

lemma f64_add_fin:
  "\<bar>fval s m + fval t n\<bar> \<le> 4 \<Longrightarrow> \<exists>u. f64_add (FFin s m) (FFin t n) = FFin u (round_mag \<bar>fval s m + fval t n\<bar>) \<and>
     (u \<longrightarrow> fval s m + fval t n < 0 \<or> s \<and> t)"
  by (auto simp: Let_def f64_round_small)

lemma f64_to_int64_bound:
  assumes "0 \<le> m" "m \<le> of_int n" "n \<le> 2 ^ 53"
  shows "0 \<le> f64_to_int64 (FFin False m)" "f64_to_int64 (FFin False m) \<le> n"
proof -
  have "0 \<le> \<lfloor>m\<rfloor>" "\<lfloor>m\<rfloor> \<le> n" using assms(1,2) by (simp_all add: floor_le_iff)
  moreover from this have "i64 \<lfloor>m\<rfloor>" using assms(3) by (auto simp: i64_def simp del: floor_less_numeral)
  ultimately show "0 \<le> f64_to_int64 (FFin False m)" "f64_to_int64 (FFin False m) \<le> n"
    by (simp_all add: Let_def)
qed

text \<open>The factor of the jitter is a number between zero and two.\<close>

lemma jitter_scale:
  assumes "0 \<le> r" "r \<le> 1" "0 \<le> j" "j \<le> 1"
  shows "\<exists>m. f64_add (FFin False 1) (f64_mul (f64_sub (f64_mul (FFin False r) (FFin False 2)) (FFin False 1)) (FFin False j))
      = FFin False m \<and> 0 \<le> m \<and> m \<le> 2"
proof -
  let ?a = "round_mag (r * 2)"
  have a: "f64_mul (FFin False r) (FFin False 2) = FFin False ?a" "0 \<le> ?a" "?a \<le> 2"
    using assms round_mag_le_2 [of "r * 2"] by (simp_all add: f64_round_small)
  then have b1: "\<bar>fval False ?a + fval True 1\<bar> \<le> 1" by (simp add: fval_def abs_le_iff)
  then obtain u where b: "f64_sub (FFin False ?a) (FFin False 1) = FFin u (round_mag \<bar>fval False ?a + fval True 1\<bar>)"
    using f64_add_fin [of False ?a True 1] by (auto simp: f64_sub_def)
  let ?b = "round_mag \<bar>fval False ?a + fval True 1\<bar>"
  have "?b \<le> 1" by (rule round_mag_le_1 [OF b1])
  then have b2: "?b * j \<le> 1" using assms(3,4) by (simp add: mult_le_one)
  let ?c = "round_mag (?b * j)"
  have c: "f64_mul (FFin u ?b) (FFin False j) = FFin u ?c" "?c \<le> 1" using b2 round_mag_le_1 [OF b2] by (simp_all add: f64_round_small)
  then have d1: "0 \<le> fval False 1 + fval u ?c" "fval False 1 + fval u ?c \<le> 2"
    using order_trans [of "- 1" 0 ?c] by (simp_all add: fval_def)
  then obtain v where "f64_add (FFin False 1) (FFin u ?c) = FFin v (round_mag \<bar>fval False 1 + fval u ?c\<bar>)"
    "v \<longrightarrow> fval False 1 + fval u ?c < 0 \<or> False" using f64_add_fin [of False 1 u ?c] by auto
  moreover have "round_mag \<bar>fval False 1 + fval u ?c\<bar> \<le> 2" using d1 by (intro round_mag_le_2) simp
  ultimately show ?thesis using a b c d1 by (auto simp: not_less)
qed

lemma jitter_bounds:
  assumes "0 \<le> delay" "delay \<le> 2 ^ 52" "in_unit rnd" "wf_f64 jitter" "\<not> IsNaN jitter"
    "\<not> f64_lt jitter (FFin False 0)" "\<not> f64_lt (FFin False 1) jitter"
  shows "0 \<le> applyJitter delay jitter rnd \<and> applyJitter delay jitter rnd \<le> 2 * delay"
proof (cases "delay \<le> 0 \<or> f64_eq jitter (FFin False 0)")
  case True
  then show ?thesis using assms(1) by (simp add: applyJitter_def)
next
  case False
  obtain r where r: "rnd = FFin False r" "0 \<le> r" "r \<le> 1" using assms(3) by (auto simp: in_unit_def split: f64.splits)
  obtain j where j: "jitter = FFin False j" "0 \<le> j" "j \<le> 1"
  proof (cases jitter)
    case (FFin s m)
    then show thesis using that [of m] False assms(4,6,7) by (cases s) (auto simp: fval_def wf_f64_def)
  qed (use assms(5,6,7) in auto)
  obtain m where m: "f64_add (FFin False 1) (f64_mul (f64_sub (f64_mul rnd (FFin False 2)) (FFin False 1)) jitter) = FFin False m"
    "0 \<le> m" "m \<le> 2" using jitter_scale [OF r(2,3) j(2,3)] r(1) j(1) by auto
  have "of_int delay * m \<le> of_int (2 * delay)" using m(3) assms(1) mult_left_mono [of m 2 "of_int delay"] by simp
  then have le: "round_mag (of_int delay * m) \<le> of_int (2 * delay)" using assms(1,2) by (intro round_mag_le_int) simp_all
  have "(of_int delay :: rat) \<le> of_int (2 ^ 52)" using assms(2) by (simp only: of_int_le_iff)
  then have "of_int delay * m \<le> 2 ^ 64" using m(2,3) assms(1) mult_mono [of "of_int delay" "2 ^ 52" m 2] by simp
  then have "f64_mul (FFin False (of_int delay)) (FFin False m) = FFin False (round_mag (of_int delay * m))"
    by (simp add: f64_round_fin)
  moreover have "f64_of_int delay = FFin False (of_int delay)" using assms(1,2) by (intro f64_of_int_exact) simp_all
  ultimately have "applyJitter delay jitter rnd = f64_to_int64 (FFin False (round_mag (of_int delay * m)))"
    using False m by (simp add: applyJitter_def Let_def fval_def del: f64_to_int64.simps)
  then show ?thesis using f64_to_int64_bound [OF _ le] assms(2) by simp
qed

lemma round_mag_pow2: "round_mag (2 ^ n) = 2 ^ n"
  using round_mag_le_pow2 [of "2 ^ n" "int n"] round_mag_ge_pow2 [of "int n" "2 ^ n"] by (simp add: pow2_nat)

lemma Pow_2_cases: "Pow_2 n = FInf False \<and> 1024 \<le> n \<or> Pow_2 n = FFin False (2 ^ nat n)"
proof (cases "1024 \<le> nat n")
  case True
  have "f64_round False (2 ^ nat n) = FFin False (2 ^ nat n) \<or> f64_round False (2 ^ nat n) = FInf False"
    by (auto simp: f64_round_def round_mag_pow2)
  then show ?thesis using True by (auto simp: Pow_2_def f64_of_rat_def)
next
  case False
  then have "(2 :: rat) ^ nat n < 2 ^ 1024" by (intro power_strict_increasing) auto
  then have "\<not> pow2 1024 \<le> 2 ^ nat n" by (simp add: pow2_def not_le)
  then show ?thesis by (simp add: Pow_2_def f64_of_rat_def f64_round_def round_mag_pow2)
qed

text \<open>In the range of durations below 104 days the floating-point backoff is the one on integers.\<close>

lemma backoff_exact:
  assumes "0 < base" "base \<le> cap" "cap < 2 ^ 53" "0 \<le> n"
  shows "cappedExponentialBackoff base cap n = min cap (base * 2 ^ nat n)"
proof -
  have c: "f64_of_int base = FFin False (of_int base)" "f64_of_int cap = FFin False (of_int cap)"
    using assms by (auto intro!: f64_of_int_exact)
  consider (inf) "Pow_2 n = FInf False" "1024 \<le> n" | (fin) "Pow_2 n = FFin False (2 ^ nat n)" using Pow_2_cases by blast
  then show ?thesis
  proof cases
    case inf
    then have "(2 :: int) ^ 53 \<le> 2 ^ nat n" by (intro power_increasing) auto
    also have "\<dots> \<le> base * 2 ^ nat n" using assms(1) by simp
    finally show ?thesis using inf assms(3,4) by (simp add: cappedExponentialBackoff_def)
  next
    case fin
    let ?x = "base * 2 ^ nat n"
    show ?thesis
    proof (cases "?x \<le> 2 ^ 53")
      case True
      then have mul: "f64_mul (FFin False (of_int base)) (FFin False (2 ^ nat n)) = FFin False (of_int ?x)"
        using f64_mul_int_exact [of base "2 ^ nat n"] assms(1) by simp
      have "0 < ?x" "\<not> ?x < 0" using assms(1) by (simp_all add: not_less)
      with True show ?thesis using assms(1,3,4)
        by (simp add: cappedExponentialBackoff_def Let_def c fin mul f64_le_def fval_def i64_def min_def
            del: f64_mul.simps of_int_mult of_int_power)
    next
      case False
      have "(of_int (2 ^ 53) :: rat) \<le> of_int ?x" using False by (simp only: of_int_le_iff)
      then have "(2 :: rat) ^ 53 \<le> round_mag (of_int base * 2 ^ nat n)"
        using round_mag_mono [of "2 ^ 53" "of_int base * 2 ^ nat n"] round_mag_pow2 [of 53] by simp
      moreover have "(of_int cap :: rat) < of_int (2 ^ 53)" using assms(3) by (simp only: of_int_less_iff)
      ultimately have "of_int cap < round_mag (of_int base * 2 ^ nat n)" by simp
      then show ?thesis using assms c fin False
        by (auto simp: cappedExponentialBackoff_def Let_def f64_round_def fval_def)
    qed
  qed
qed

text \<open>An equation that evaluates quickly.\<close>

lemma backoff_code [code]:
  "cappedExponentialBackoff base cap n =
     (if 0 < base \<and> base \<le> cap \<and> cap < 9007199254740992 \<and> 0 \<le> n then min cap (base * 2 ^ nat n)
      else
        let n = (if n < 0 then 0 else n);
            mult = Pow_2 n
        in if IsInf mult then cap
           else
             let x = f64_mul (f64_of_int base) mult
             in if IsInf x \<or> f64_le x (f64_of_int 0) \<or> f64_gt x (f64_of_int cap) then cap else f64_to_int64 x)"
proof (cases "0 < base \<and> base \<le> cap \<and> cap < 9007199254740992 \<and> 0 \<le> n")
  case True
  then show ?thesis using backoff_exact [of base cap n] by simp
next
  case False
  then show ?thesis by (simp only: cappedExponentialBackoff_def if_False)
qed

lemma new_jitter:
  assumes "NewSupervisorPolicy cfg = Inr p"
  shows "sup_Jitter (sp_cfg p) = sup_Jitter cfg" "\<not> f64_lt (sup_Jitter cfg) (FFin False 0)" "\<not> f64_lt (FFin False 1) (sup_Jitter cfg)"
  using assms by (auto simp: NewSupervisorPolicy_def Let_def split: if_splits)

lemma failure_delay:
  assumes "OnFailure s now rnd p = (p', d)" "dec_Restart d" "0 < sup_BaseBackoff (sp_cfg p)"
    "sup_BaseBackoff (sp_cfg p) \<le> sup_MaxBackoff (sp_cfg p)" "sup_MaxBackoff (sp_cfg p) \<le> 2 ^ 52"
  shows "dec_Delay d = applyJitter (min (sup_MaxBackoff (sp_cfg p))
      (sup_BaseBackoff (sp_cfg p) * 2 ^ (length (rs_failures (restart_of p' s)) - 1))) (sup_Jitter (sp_cfg p)) rnd"
  using assms(1)
proof (cases rule: failure_cases)
  case (restart fs)
  have "sup_MaxBackoff (sp_cfg p) < 2 ^ 53" using assms(5) by simp
  from backoff_exact [OF assms(3,4) this, of "int (length fs) - 1"] show ?thesis using restart by (simp add: nat_diff_distrib)
qed (use assms(2) in simp_all)

section \<open>Properties\<close>

definition hasty_policy :: SupervisorPolicy where
  "hasty_policy = \<lparr>sp_cfg = \<lparr>sup_BaseBackoff = 250000000, sup_MaxBackoff = 5000000000, sup_Jitter = FFin False 0,
     sup_RestartWindow = 30000000000, sup_RestartLimit = 2, sup_Cooldown = 30000000000\<rparr>, sp_states = []\<rparr>"



text \<open>
  Property C37. The delay of a restart: with a configured jitter that is a number and a cap of at most
  \<open>2 ^ 52\<close> nanoseconds, the floating-point computation never gives a negative delay nor one of more than
  twice the exponential backoff, which is the base doubled for each earlier failure in the window and
  capped; without jitter it is exactly that.
\<close>

theorem supervisor_restart_delay:
  assumes "NewSupervisorPolicy cfg = Inr q" "sp_cfg p = sp_cfg q" "sup_MaxBackoff (sp_cfg p) \<le> 2 ^ 52"
    "wf_f64 (sup_Jitter cfg)" "\<not> IsNaN (sup_Jitter cfg)" "in_unit rnd"
    "OnFailure s now rnd p = (p', d)" "dec_Restart d"
    "backoff = min (sup_MaxBackoff (sp_cfg p)) (sup_BaseBackoff (sp_cfg p) * 2 ^ (length (rs_failures (restart_of p' s)) - 1))"
  shows "0 \<le> dec_Delay d \<and> dec_Delay d \<le> 2 * backoff \<and> (f64_eq (sup_Jitter cfg) (f64_of_int 0) \<longrightarrow> dec_Delay d = backoff)"
proof -
  note cfg = new_policy(4,5) [OF assms(1), folded assms(2)] and j = new_jitter [OF assms(1), folded assms(2)]
  have d: "dec_Delay d = applyJitter backoff (sup_Jitter cfg) rnd"
    using failure_delay [OF assms(7,8) cfg assms(3)] j(1) assms(9) by simp
  have "0 \<le> backoff" "backoff \<le> 2 ^ 52" using cfg assms(3,9) by simp_all
  from jitter_bounds [OF this assms(6,4,5) j(2,3)] show ?thesis
    using d by (simp add: applyJitter_def)
qed

theorem supervisor_restart_delay_witness:
  "dec_Delay (snd (OnFailure ''delivery'' 5 (FFin False (1 / 2))
     (fst (OnFailure ''delivery'' 0 (FFin False (1 / 2)) hasty_policy)))) = 500000000"
proof -
  let ?p = "fst (OnFailure ''delivery'' 0 (FFin False (1 / 2)) hasty_policy)"
  have new: "NewSupervisorPolicy (sp_cfg hasty_policy) = Inr hasty_policy"
    by (simp add: NewSupervisorPolicy_def hasty_policy_def fval_def)
  have p: "sp_cfg ?p = sp_cfg hasty_policy" by code_simp
  have hyps: "sup_MaxBackoff (sp_cfg ?p) \<le> 2 ^ 52" "wf_f64 (sup_Jitter (sp_cfg hasty_policy))"
    "\<not> IsNaN (sup_Jitter (sp_cfg hasty_policy))" "in_unit (FFin False (1 / 2))"
    unfolding p by (simp_all add: hasty_policy_def wf_f64_def in_unit_def)
  have "dec_Restart (snd (OnFailure ''delivery'' 5 (FFin False (1 / 2)) ?p))" by code_simp
  moreover have "min (sup_MaxBackoff (sp_cfg ?p)) (sup_BaseBackoff (sp_cfg ?p) *
      2 ^ (length (rs_failures (restart_of (fst (OnFailure ''delivery'' 5 (FFin False (1 / 2)) ?p)) ''delivery'')) - 1)) = 500000000"
    by code_simp
  ultimately show ?thesis
    using supervisor_restart_delay [OF new p hyps surjective_pairing _ refl] by (simp add: hasty_policy_def fval_def)
qed

end
