(* ===== verification/Delivery_Path.thy ===== *)
theory Delivery_Path
  imports Router
begin

text \<open>
  From the router to a client. The router numbers the events that it sends on each stream; this theory
  follows these numbers through runs of the router.
\<close>

section \<open>Definitions\<close>

definition last_number :: "Router \<Rightarrow> string \<Rightarrow> int" where
  "last_number r key =
     (if TrimSpace key = '''' then 0
      else case map_of (rt_streamState r) (TrimSpace key) of None \<Rightarrow> 0 | Some st \<Rightarrow> ss_lastDeliverySeq st)"

fun number_of :: "string \<Rightarrow> router_out \<Rightarrow> int list" where
  "number_of key (StoreEnvelope env) = []"
| "number_of key (DeliverEvent pid subject env) = (if subject_String subject = key then [env_Seq env] else [])"

definition numbers :: "string \<Rightarrow> router_out list \<Rightarrow> int list" where
  "numbers key outs = concat (map (number_of key) outs)"

text \<open>
  A step that opens at most \<open>n\<close> streams and issues at most \<open>n\<close> numbers on each. While the router has
  room for them and the counters are in range, the numbers of every stream continue in order.
\<close>

definition room :: "nat \<Rightarrow> Router \<Rightarrow> bool" where
  "room n r \<longleftrightarrow> int (length (rt_streamState r)) + int n \<le> rt_maxStreamStateEntries r \<and>
     (\<forall>key. 0 \<le> last_number r key \<and> last_number r key + int n < 2 ^ 63)"

definition advances :: "nat \<Rightarrow> Router \<Rightarrow> router_out list \<Rightarrow> Router \<Rightarrow> bool" where
  "advances n r outs r' \<longleftrightarrow>
     rt_maxStreamStateEntries r' = rt_maxStreamStateEntries r \<and>
     length (rt_streamState r') \<le> length (rt_streamState r) + n \<and>
     (room n r \<longrightarrow> (\<forall>key. last_number r' key \<le> last_number r key + int n \<and>
        sorted (last_number r key # numbers key outs @ [last_number r' key])))"

text \<open>The messages that add sessions, subscriptions and events, and take nothing away.\<close>

fun growing :: "router_msg \<Rightarrow> bool" where
  "growing (RegisterSession sid pid) = True"
| "growing (SubscribeSession sid subject) = True"
| "growing (DeliverEnvelope env) = True"
| "growing _ = False"

section \<open>Lemmas\<close>

lemma numbers_append [simp]: "numbers key (xs @ ys) = numbers key xs @ numbers key ys"
  by (simp add: numbers_def)

lemma numbers_Nil [simp]: "numbers key [] = []"
  by (simp add: numbers_def)

lemma numbers_sends: "set (numbers key (map (\<lambda>p. DeliverEvent p s (env\<lparr>env_Seq := n\<rparr>)) ps)) \<subseteq> (if subject_String s = key then {n} else {})"
  by (induction ps) (auto simp: numbers_def)

lemma advances_refl:
  assumes "rt_streamState r' = rt_streamState r" "rt_maxStreamStateEntries r' = rt_maxStreamStateEntries r"
    "\<And>key. numbers key outs = []"
  shows "advances 0 r outs r'"
  using assms by (simp add: advances_def last_number_def)

lemma roomD:
  assumes "room n r"
  shows "int (length (rt_streamState r)) + int n \<le> rt_maxStreamStateEntries r" "0 \<le> last_number r key"
    "last_number r key + int n < 2 ^ 63"
  using assms by (simp_all add: room_def)

lemma room_mono:
  assumes "room n r" "m \<le> n"
  shows "room m r"
  unfolding room_def
proof (intro conjI allI)
  fix key
  have m: "int m \<le> int n" using assms(2) by simp
  show "int (length (rt_streamState r)) + int m \<le> rt_maxStreamStateEntries r" using roomD(1) [OF assms(1)] m by linarith
  show "0 \<le> last_number r key" by (rule roomD(2) [OF assms(1)])
  show "last_number r key + int m < 2 ^ 63" using roomD(3) [OF assms(1), of key] m by linarith
qed

lemma advancesD:
  assumes "advances n r outs r'"
  shows "rt_maxStreamStateEntries r' = rt_maxStreamStateEntries r"
    "length (rt_streamState r') \<le> length (rt_streamState r) + n"
    "room n r \<Longrightarrow> last_number r' key \<le> last_number r key + int n"
    "room n r \<Longrightarrow> sorted (last_number r key # numbers key outs @ [last_number r' key])"
    "room n r \<Longrightarrow> last_number r key \<le> last_number r' key"
  using assms by (simp_all add: advances_def)

lemma advances_room:
  assumes "advances n r outs r'" "room (n + m) r"
  shows "room m r'"
  unfolding room_def
proof (intro conjI allI)
  fix key
  have n: "room n r" using room_mono [OF assms(2)] by simp
  note room = roomD(1) [OF assms(2)] roomD(2,3) [OF assms(2), of key] and adv = advancesD [OF assms(1)]
  show "int (length (rt_streamState r')) + int m \<le> rt_maxStreamStateEntries r'" using room(1) adv(1,2) by simp
  show "0 \<le> last_number r' key" using room(2) adv(5) [OF n, of key] by linarith
  have "int (n + m) = int n + int m" by simp
  then show "last_number r' key + int m < 2 ^ 63" using room(3) adv(3) [OF n, of key] by linarith
qed

lemma sorted_chain: "sorted (a # xs @ [b]) \<Longrightarrow> sorted (b # ys @ [c]) \<Longrightarrow> sorted (a # (xs @ ys) @ [c :: int])"
  by (auto simp: sorted_append intro: order_trans)

lemma advances_trans:
  assumes "advances n r outs r'" "advances m r' outs' r''"
  shows "advances (n + m) r (outs @ outs') r''"
  unfolding advances_def
proof (intro conjI impI allI)
  fix key
  assume room: "room (n + m) r"
  have n: "room n r" using room_mono [OF room] by simp
  have m: "room m r'" by (rule advances_room [OF assms(1) room])
  show "last_number r'' key \<le> last_number r key + int (n + m)"
    using advancesD(3) [OF assms(1) n, of key] advancesD(3) [OF assms(2) m, of key] by simp
  show "sorted (last_number r key # numbers key (outs @ outs') @ [last_number r'' key])"
    using sorted_chain [OF advancesD(4) [OF assms(1) n, of key] advancesD(4) [OF assms(2) m, of key]] by simp
qed (use advancesD(1,2) [OF assms(1)] advancesD(1,2) [OF assms(2)] in simp_all)

lemma advances_mono:
  assumes "advances n r outs r'" "n \<le> m"
  shows "advances m r outs r'"
  unfolding advances_def
proof (intro conjI impI allI)
  fix key
  assume "room m r"
  then have "room n r" using assms(2) by (rule room_mono)
  then show "last_number r' key \<le> last_number r key + int m"
    "sorted (last_number r key # numbers key outs @ [last_number r' key])"
    using advancesD(3,4) [OF assms(1), of key] assms(2) by simp_all
qed (use advancesD(1,2) [OF assms(1)] assms(2) in simp_all)

subsection \<open>The parts of the handler\<close>

lemma update_length_le: "length (AList.update k v xs) \<le> Suc (length xs)"
  by (simp add: update_length)

lemma make_room_id: "int (length (rt_streamState r)) < rt_maxStreamStateEntries r \<Longrightarrow> make_room now r = r"
  by (simp add: make_room_def)

lemma advances_update:
  assumes "rt_streamState r' = AList.update (TrimSpace sid) st (rt_streamState r)"
    "rt_maxStreamStateEntries r' = rt_maxStreamStateEntries r"
    "TrimSpace sid \<noteq> '''' \<Longrightarrow> ss_lastDeliverySeq st = last_number r sid"
  shows "advances 1 r [] r'"
proof -
  have "last_number r' key = last_number r key" for key
    using assms(1,3) by (auto simp: last_number_def update_conv')
  then show ?thesis using assms(1,2) update_length_le [of "TrimSpace sid" st "rt_streamState r"] by (simp add: advances_def)
qed

lemma make_room_le: "length (rt_streamState (make_room now r)) \<le> length (rt_streamState r)"
  using length_filter_le [of _ "rt_streamState r"]
  by (auto simp: make_room_def Let_def sweepStreamState_def evictOldestStreamState_def
      intro: order_trans [OF length_delete_le])

lemma accept_max: "rt_maxStreamStateEntries (fst (acceptStreamSeq now sid env r)) = rt_maxStreamStateEntries r"
  by (simp add: acceptStreamSeq_def Let_def split: option.split)

lemma accept_length: "length (rt_streamState (fst (acceptStreamSeq now sid env r))) \<le> Suc (length (rt_streamState r))"
proof (cases rule: accept_streams [of now sid env r])
  case (2 st)
  then show ?thesis
    using make_room_le [of now r] update_length_le [of "TrimSpace sid" st "rt_streamState r"]
      update_length_le [of "TrimSpace sid" st "rt_streamState (make_room now r)"] by (auto split: if_splits)
qed simp

lemma advances_accept: "advances 1 r [] (fst (acceptStreamSeq now sid env r))"
proof (cases "int (length (rt_streamState r)) < rt_maxStreamStateEntries r \<or> map_of (rt_streamState r) (TrimSpace sid) \<noteq> None")
  case True
  show ?thesis
  proof (cases "TrimSpace sid = '''' \<or> env_Seq env \<le> 0")
    case False
    define st where "st = (case map_of (rt_streamState r) (TrimSpace sid) of None \<Rightarrow> zero_streamState | Some st \<Rightarrow> st)"
    define own where "own = (if processorInstanceIDFromMeta (env_Meta env) = ''''
      then deliveryOwnershipToken (TrimSpace sid) else processorInstanceIDFromMeta (env_Meta env))"
    define d where "d = Decide defaultSeqPolicyStaleGapWindow (accept_input (TrimSpace sid) env own (st\<lparr>ss_lastSeenAt := now\<rparr>))"
    have st: "ss_lastDeliverySeq st = last_number r sid"
      using False by (simp add: st_def last_number_def zero_streamState_def split: option.split)
    have start: "(case map_of (rt_streamState r) (TrimSpace sid) of None \<Rightarrow> (make_room now r, zero_streamState) | Some st \<Rightarrow> (r, st)) = (r, st)"
      using True by (auto simp: st_def make_room_id split: option.split)
    have "\<exists>st'. rt_streamState (fst (acceptStreamSeq now sid env r)) = AList.update (TrimSpace sid) st' (rt_streamState r) \<and>
        ss_lastDeliverySeq st' = ss_lastDeliverySeq st"
    proof (cases "d_action d = seqPolicyActionAccept")
      case True
      then show ?thesis using False
        by (intro exI [of _ "accepted_state env own (st\<lparr>ss_lastSeenAt := now\<rparr>)"])
          (simp add: acceptStreamSeq_def Let_def start own_def [symmetric] d_def [symmetric])
    next
      case no: False
      show ?thesis using False no
        by (intro exI [of _ "if d_action d = seqPolicyActionConvertToResync \<and> d_resyncWatermark d > ss_pendingResyncWatermark st
            then st\<lparr>ss_lastSeenAt := now, ss_pendingResyncWatermark := d_resyncWatermark d\<rparr> else st\<lparr>ss_lastSeenAt := now\<rparr>"])
          (simp add: acceptStreamSeq_def Let_def start own_def [symmetric] d_def [symmetric])
    qed
    then show ?thesis using advances_update [of "fst (acceptStreamSeq now sid env r)" sid _ r] accept_max st by metis
  qed (auto simp: acceptStreamSeq_def Let_def intro: advances_mono [OF advances_refl])
next
  case False
  then have "\<not> room 1 r" by (simp add: room_def)
  then show ?thesis
    using accept_max accept_length by (simp add: advances_def)
qed

lemma next_eq:
  assumes "nextDeliverySeq now sid r = (r', n)" "room 1 r"
  shows "n = last_number r' sid" "last_number r' sid \<le> last_number r sid + 1"
    "last_number r key \<le> last_number r' key" "last_number r' key \<le> last_number r key + 1"
proof -
  have "n = last_number r' sid \<and> last_number r' sid \<le> last_number r sid + 1 \<and>
    last_number r key \<le> last_number r' key \<and> last_number r' key \<le> last_number r key + 1"
  proof (cases "TrimSpace sid = ''''")
    case True
    then show ?thesis
      using assms(1) by (simp add: nextDeliverySeq_def last_number_def)
  next
    case False
    define st where "st = (case map_of (rt_streamState r) (TrimSpace sid) of Some st \<Rightarrow> st | None \<Rightarrow> zero_streamState)"
    have st: "ss_lastDeliverySeq st = last_number r sid"
      using False by (simp add: st_def last_number_def zero_streamState_def split: option.split)
    have range: "0 \<le> last_number r sid" "last_number r sid + 1 < 2 ^ 63" using roomD(2,3) [OF assms(2), of sid] by simp_all
    then have "wrap64 (last_number r sid + 1) = last_number r sid + 1" by (intro wrap64_id) (simp add: i64_def)
    then have n: "n = last_number r sid + 1"
      and r': "r' = r\<lparr>rt_streamState := AList.update (TrimSpace sid) (st\<lparr>ss_lastDeliverySeq := n, ss_lastSeenAt := now\<rparr>) (rt_streamState r)\<rparr>"
      using assms(1) False st range(1) by (auto simp: nextDeliverySeq_def Let_def st_def [symmetric])
    have "last_number r' key = (if TrimSpace key = TrimSpace sid then n else last_number r key)" for key
      using False by (simp add: r' last_number_def update_conv')
    moreover have "TrimSpace key = TrimSpace sid \<Longrightarrow> last_number r key = last_number r sid" by (simp add: last_number_def)
    ultimately show ?thesis using n by simp
  qed
  then show "n = last_number r' sid" "last_number r' sid \<le> last_number r sid + 1"
    "last_number r key \<le> last_number r' key" "last_number r' key \<le> last_number r key + 1" by simp_all
qed

lemma next_size:
  assumes "nextDeliverySeq now sid r = (r', n)"
  shows "rt_maxStreamStateEntries r' = rt_maxStreamStateEntries r" "length (rt_streamState r') \<le> length (rt_streamState r) + 1"
  using assms by (auto simp: nextDeliverySeq_def Let_def update_length split: if_splits)

lemma sorted_same: "set xs \<subseteq> {n} \<Longrightarrow> a \<le> n \<Longrightarrow> n \<le> b \<Longrightarrow> sorted (a # xs @ [b :: int])"
proof (induction xs)
  case (Cons x xs)
  then show ?case by (auto simp: sorted_append)
qed simp

lemma advances_sends:
  assumes "nextDeliverySeq now (subject_String s) r = (r', n)"
  shows "advances 1 r (map (\<lambda>p. DeliverEvent p s (env\<lparr>env_Seq := n\<rparr>)) ps) r'"
  unfolding advances_def
proof (intro conjI impI allI)
  fix key
  assume room: "room 1 r"
  note eq = next_eq [OF assms room]
  show "last_number r' key \<le> last_number r key + int 1" using eq(4) [of key] by simp
  show "sorted (last_number r key # numbers key (map (\<lambda>p. DeliverEvent p s (env\<lparr>env_Seq := n\<rparr>)) ps) @ [last_number r' key])"
  proof (cases "subject_String s = key")
    case True
    then show ?thesis
      using numbers_sends [of key s n env ps] eq(1) eq(3) [of key] by (intro sorted_same [of _ n]) simp_all
  next
    case False
    then have "numbers key (map (\<lambda>p. DeliverEvent p s (env\<lparr>env_Seq := n\<rparr>)) ps) = []"
      using numbers_sends [of key s n env ps] by simp
    then show ?thesis using eq(3) [of key] by simp
  qed
qed (use next_size [OF assms] in simp_all)

lemma fan_out_some: "\<exists>ps sent'. fan_out now track s env pids (r, sent, Some n, outs) =
    (r, sent', Some n, outs @ map (\<lambda>p. DeliverEvent p s (env\<lparr>env_Seq := n\<rparr>)) ps)"
proof (induction pids arbitrary: sent outs)
  case (Cons pid pids)
  show ?case
  proof (cases "track \<and> pid \<in> set sent")
    case True
    then show ?thesis using Cons.IH by simp
  next
    case False
    obtain ps sent' where "fan_out now track s env pids (r, if track then pid # sent else sent, Some n,
        outs @ [DeliverEvent pid s (env\<lparr>env_Seq := n\<rparr>)]) =
      (r, sent', Some n, (outs @ [DeliverEvent pid s (env\<lparr>env_Seq := n\<rparr>)]) @ map (\<lambda>p. DeliverEvent p s (env\<lparr>env_Seq := n\<rparr>)) ps)"
      using Cons.IH by blast
    then have "fan_out now track s env (pid # pids) (r, sent, Some n, outs) =
      (r, sent', Some n, outs @ map (\<lambda>p. DeliverEvent p s (env\<lparr>env_Seq := n\<rparr>)) (pid # ps))"
      using False by (auto simp: Let_def)
    then show ?thesis by blast
  qed
qed (auto intro: exI [of _ "[]"])

lemma advances_fan_out:
  assumes "fan_out now track s env pids (r, sent, None, []) = (r', sent', q, outs)"
  shows "advances 1 r outs r'"
  using assms
proof (induction pids arbitrary: sent)
  case Nil
  then show ?case by (auto intro: advances_mono [OF advances_refl])
next
  case (Cons pid pids)
  show ?case
  proof (cases "track \<and> pid \<in> set sent")
    case True
    then show ?thesis using Cons by simp
  next
    case False
    obtain r1 n where n: "nextDeliverySeq now (subject_String s) r = (r1, n)" by fastforce
    obtain ps where "r' = r1" "outs = [DeliverEvent pid s (env\<lparr>env_Seq := n\<rparr>)] @ map (\<lambda>p. DeliverEvent p s (env\<lparr>env_Seq := n\<rparr>)) ps"
      using Cons.prems False n fan_out_some [of now track s env pids r1 "if track then pid # sent else sent" n
          "[DeliverEvent pid s (env\<lparr>env_Seq := n\<rparr>)]"] by (auto simp: Let_def)
    then show ?thesis using advances_sends [OF n, of env "pid # ps"] by simp
  qed
qed

lemma advances_fan_out_option:
  assumes "(case a of None \<Rightarrow> (r, sent, None, []) | Some s \<Rightarrow> fan_out now track s env A (r, sent, None, [])) = (r', sent', q, outs)"
  shows "advances 1 r outs r'"
  using assms advances_fan_out by (cases a) (auto intro: advances_mono [OF advances_refl])

lemma advances_send_all: "advances 3 r (snd (send_all now s a w env T A W r)) (fst (send_all now s a w env T A W r))"
proof -
  define track where "track = (length T + length A + length W > 1)"
  obtain r1 n where 1: "nextDeliverySeq now (subject_String s) r = (r1, n)" by fastforce
  obtain r2 sent2 q2 outs2 where 2: "(case a of None \<Rightarrow> (r1, if track then rev T else [], None, [])
      | Some s \<Rightarrow> fan_out now track s env A (r1, if track then rev T else [], None, [])) = (r2, sent2, q2, outs2)"
    by (metis prod_cases4)
  obtain r3 sent3 q3 outs3 where 3: "(case w of None \<Rightarrow> (r2, sent2, None, [])
      | Some s \<Rightarrow> fan_out now track s env W (r2, sent2, None, [])) = (r3, sent3, q3, outs3)"
    by (metis prod_cases4)
  have "send_all now s a w env T A W r = (r3, map (\<lambda>pid. DeliverEvent pid s (env\<lparr>env_Seq := n\<rparr>)) T @ outs2 @ outs3)"
    unfolding send_all_def Let_def track_def [symmetric] 1 prod.case 2 3 by simp
  moreover have "advances (1 + (1 + 1)) r (map (\<lambda>pid. DeliverEvent pid s (env\<lparr>env_Seq := n\<rparr>)) T @ outs2 @ outs3) r3"
    by (intro advances_trans [OF advances_sends [OF 1]] advances_trans [OF advances_fan_out_option [OF 2]]
        advances_fan_out_option [OF 3])
  ultimately show ?thesis by (simp add: numeral_3_eq_3)
qed

lemma advances_accept_if:
  assumes "accept_if now ts s env r = (r', ok)"
  shows "advances 1 r [] r'"
proof (cases "s = None \<or> ts = []")
  case True
  then have "r' = r" using assms by (auto simp: accept_if_def split: option.splits)
  then show ?thesis by (auto intro: advances_mono [OF advances_refl])
next
  case False
  then obtain x where "s = Some x" by auto
  with False assms have "r' = fst (acceptStreamSeq now (subject_String x) env r)" by (auto simp: accept_if_def split_beta)
  then show ?thesis using advances_accept by simp
qed

lemma advances_deliver_all: "advances 6 r (snd (deliver_all now s a w env r)) (fst (deliver_all now s a w env r))"
proof -
  define T A W where TAW: "T = targets_of r (Some s)" "A = targets_of r a" "W = targets_of r w"
  obtain r1 b1 where 1: "accept_if now T (Some s) env r = (r1, b1)" by fastforce
  obtain r2 b2 where 2: "accept_if now A a env r1 = (r2, b2)" by fastforce
  obtain r3 b3 where 3: "accept_if now W w env r2 = (r3, b3)" by fastforce
  note adv = advances_accept_if [OF 1] advances_accept_if [OF 2] advances_accept_if [OF 3]
    advances_send_all [of r3 now s a w env T A W]
  note two = advances_trans [OF adv(1,2)]
  note three = advances_trans [OF two adv(3)]
  note adv(1) two three advances_trans [OF three adv(4)]
  moreover have "advances 0 r [] r" by (rule advances_refl) simp_all
  ultimately have "advances 6 r [] r" "advances 6 r [] r1" "advances 6 r [] r2" "advances 6 r [] r3"
    "advances 6 r (snd (send_all now s a w env T A W r3)) (fst (send_all now s a w env T A W r3))"
    by (auto elim!: advances_mono)
  then show ?thesis
    unfolding deliver_all_def Let_def TAW [symmetric] 1 prod.case 2 3 by (cases "T = [] \<and> A = [] \<and> W = []") auto
qed

lemma advances_handle: "advances 6 r (snd (handleEnvelope now env r)) (fst (handleEnvelope now env r))"
proof -
  have store: "advances 6 r outs r" if "\<And>key. numbers key outs = []" for outs
    using advances_mono [OF advances_refl [OF refl refl that]] by simp
  have both: "advances 6 r (snd (handleEnvelope now env r)) (fst (handleEnvelope now env r))"
    if "handleEnvelope now env r = (r', stored @ sends)" "(r', sends) = deliver_all now s a w env r"
      "\<And>key. numbers key stored = []" for r' stored sends s a w
    using advances_deliver_all [of r now s a w env] that(1) that(2) [symmetric] that(3) by (simp add: advances_def)
  let ?stored = "if rt_hasStore r then [StoreEnvelope env] else []"
  have stored: "numbers key ?stored = []" for key by (simp add: numbers_def)
  consider "handleEnvelope now env r = (r, [])" | "handleEnvelope now env r = (r, ?stored)"
    | s a w where "handleEnvelope now env r = (fst (deliver_all now s a w env r), ?stored @ snd (deliver_all now s a w env r))"
    unfolding handleEnvelope_def Let_def
    by (cases "rt_stopped r"; cases "ValidateEnvelopeForDelivery env";
        cases "delivery_SubjectFromEnvelope env (routingTimeframeForEnvelope (rt_timeframe r) env)") (auto simp: split_beta)
  then show ?thesis
  proof cases
    case 1 then show ?thesis using store [of "[]"] by simp
  next
    case 2 then show ?thesis using store [OF stored] by simp
  next
    case (3 s a w) then show ?thesis by (rule both [OF _ _ stored]) simp
  qed
qed

lemma grow_streams:
  "rt_streamState (router_register sid pid r) = rt_streamState r"
  "rt_maxStreamStateEntries (router_register sid pid r) = rt_maxStreamStateEntries r"
  "rt_streamState (router_subscribe sid s r) = rt_streamState r"
  "rt_maxStreamStateEntries (router_subscribe sid s r) = rt_maxStreamStateEntries r"
  by (simp_all add: router_register_def router_subscribe_def rebuildSubjectPIDs_def Let_def split: option.split)

lemma advances_receive:
  assumes "growing msg"
  shows "advances 6 r (snd (router_Receive now msg r)) (fst (router_Receive now msg r))"
  using assms advances_handle
  by (cases msg) (auto intro!: advances_mono [OF advances_refl] simp: grow_streams)

lemma advances_run:
  assumes "list_all (\<lambda>(now, msg). growing msg) msgs"
  shows "advances (6 * length msgs) r (snd (router_run msgs r)) (fst (router_run msgs r))"
  using assms
proof (induction msgs r rule: router_run.induct)
  case (1 r)
  then show ?case by (simp add: advances_refl)
next
  case (2 now msg msgs r)
  obtain r1 outs1 where 1: "router_Receive now msg r = (r1, outs1)" by fastforce
  have "advances 6 r outs1 r1" using advances_receive [of msg r now] 2(2) 1 by simp
  moreover have "advances (6 * length msgs) r1 (snd (router_run msgs r1)) (fst (router_run msgs r1))"
    using 2 1 by simp
  ultimately show ?case using advances_trans 1 by (fastforce simp: split_beta)
qed

end
