(* ===== verification/Spec2Isabelle.thy ===== *)
theory Spec2Isabelle
  imports Session_Faults Supervisor Delivery_Path
begin

text \<open>
  A verification library for the delivery path of a market-data platform written in Go. The sources are
  under \<open>src/internal\<close>; all file names below are relative to it.

  The program. Exchange connections feed frames through a bounded queue to parsers, events travel as
  envelopes over a message bus, and a delivery router hands each event to the websocket sessions that
  subscribed to its subject. A session is an actor with a bounded ring of events: it enqueues what the
  router delivers under a drop policy, writes the ring to its connection in single frames or batches, and
  answers the commands of its client (subscribe, unsubscribe, resync, last, range, hello, ping). A
  supervisor policy decides when a failed subsystem of the process is restarted.

  \<^bold>\<open>Language and library.\<close> \<open>Go_Prelude\<close> has the integers of 64 bits with their wrap-around, the
  parts of \<open>strings\<close>, \<open>strconv\<close> and \<open>time\<close> that the code calls, and Go maps as association
  lists; \<open>Go_Float\<close> has float64 as a datatype of NaN, infinities and signed rationals with
  round-to-nearest-even, the lemmas that bound its rounding error and show it exact on integers up to
  \<open>2 ^ 53\<close>. \<open>Problem\<close> has the structured error of \<open>shared/problem\<close> and the checks of
  \<open>shared/validation\<close>: a fallible function returns \<open>problem + 'a\<close>.

  \<^bold>\<open>Names, keys and events.\<close> \<open>Naming\<close> models \<open>shared/naming\<close> and shows when a second
  normalisation changes nothing. \<open>Hashing\<close> models \<open>shared/hash\<close>: the unrolled loops compute FNV-1a
  of the joined fields, and two events of a stream that differ in one number get different keys.
  \<open>Ownership\<close> models \<open>shared/ownership\<close> and the sequence policy of the router
  (\<open>seq_policy.go\<close>, \<open>seq_policy_contract.go\<close>): which numbers of a stream are admitted.
  \<open>Envelope\<close> models \<open>shared/envelope\<close> and the subjects and shards of
  \<open>adapters/jetstream\<close>: validation on every branch, the round trip of bus subjects, and that each
  subject belongs to one shard.

  \<^bold>\<open>Containers.\<close> \<open>Bounded_Map\<close> models \<open>shared/ds/boundedmap.go\<close> with its list of recent
  use, expiry and sweeps, and states the contract of a cache as the locale \<open>cache\<close>;
  \<open>Snapshot_Cache\<close> models \<open>snapshot_wire_cache.go\<close> and interprets the same locale.
  \<open>Ring_Queues\<close> models the ring between websocket reader and parser
  (\<open>actors/marketdata/runtime/backpressure_queue.go\<close>) and the ring of a session
  (\<open>delivery_ring.go\<close>) and shows that both implement bounded lists, by a locale of ring buffers.

  \<^bold>\<open>Router.\<close> \<open>Delivery_Domain\<close> models \<open>core/delivery/domain\<close>: subjects with the round trip of
  their keys, the contracts of deliverable events, subscriptions. \<open>Router\<close> models \<open>router.go\<close>
  and \<open>router_coherence_sampling.go\<close> of \<open>actors/delivery/runtime\<close>: its state is a record with the
  two directions of the subscription index, the fan-out lists and the state of each stream; a message is a
  value of \<open>router_msg\<close>, the messages sent are returned. In every reachable router the index is
  consistent, the admitted numbers of a stream increase, and a sent event reaches each subscriber once.

  \<^bold>\<open>Session.\<close> \<open>Session_Limits\<close> models \<open>rate_limiter.go\<close> and \<open>effective_limits.go\<close>;
  \<open>Session_Protocol\<close> the frames and pages of \<open>session_protocol.go\<close>; \<open>Session_Actor\<close> the
  whole actor: \<open>session.go\<close>, \<open>session_commands.go\<close>, \<open>session_delivery.go\<close>,
  \<open>session_drop_policy.go\<close>, \<open>backpressure_strategy.go\<close>, \<open>session_metrics_tick.go\<close> and
  \<open>session_usecase.go\<close>. The state is the record \<open>SessionActor\<close>; \<open>session_Receive\<close> handles one
  message and is \<open>None\<close> when the Go code would panic on a nil map. Code outside the repository and the
  stores (JSON and protobuf codecs, the compressor, the connection, the readers of last values and
  ranges) is the record \<open>ports\<close> of functions, an argument of every definition that calls it.
  \<open>Session_Queue\<close> shows that an arriving event changes the ring as the drop policy says;
  \<open>Session_Commands\<close> what commands leave alone; \<open>Session_Run\<close> the invariants of whole runs (one flush
  message on its way for a queue that is not empty, limits of subscriptions, the chain of previous
  numbers); \<open>Session_Flush\<close> that the flush messages of a session empty its queue or close it;
  \<open>Session_Order\<close> that what a client reads of a subject is a subsequence of what the router delivered;
  \<open>Session_Faults\<close> three behaviours that the code does not intend. \<open>Session_Examples\<close> has the
  concrete configurations and ports that the witnesses evaluate.

  \<^bold>\<open>Supervisor.\<close> \<open>Supervisor\<close> models \<open>actors/runtime/supervisor.go\<close>: the rate of restarts is
  bounded and the floating-point backoff is the one on integers.

  \<^bold>\<open>Conventions.\<close> An operation that Go runs under a mutex, and the handling of one message by an
  actor, is one step. A clock reading is an argument; where the code reads the clock more than once in a
  step the readings are one value. Strings are byte lists, so that case conversion is that of ASCII. Loops
  are recursive functions that terminate; the only bound that stands for a loop condition is the number of
  events of a flush, which the code itself counts down (\<open>wsFlushBatchSize\<close>).

  \<^bold>\<open>Not modelled.\<close> Logs, metrics and spans, which the modelled code never reads. The bytes of JSON and
  protobuf frames: a frame is a value of a datatype and its size a function of the ports. The goroutines
  that read the socket and run timers: they only turn frames and ticks into messages. Generated code,
  clients of brokers and databases, HTTP handlers, configuration loading, the process entry points and the
  terminal client: they are input and output. The guardian that acts on the supervisor policy, and the
  aggregation, insights, evidence and ingestion contexts: separate components that the delivery path
  reaches only through the envelopes of the bus.
\<close>

end
